theory Spec2Isabelle
  imports Complex_Main
begin

section \<open>Python strings\<close>

text \<open>
  A Python \<open>str\<close> is modelled as a \<open>string\<close>: a list of characters, each read as a
  code point below 256.  Only the string methods that \<open>main.py\<close> calls are modelled.

  \<open>isspace\<close> is \<open>str.isspace\<close> on one character: the code points 9..13, 28..32, 133
  and 160 are the whitespace characters below 256.
\<close>

definition isspace :: "char \<Rightarrow> bool" where
  "isspace c =
     (let n = (of_char c :: nat)
      in (9 \<le> n \<and> n \<le> 13) \<or> (28 \<le> n \<and> n \<le> 32) \<or> n = 133 \<or> n = 160)"

text \<open>\<open>s.strip()\<close>: whitespace removed from both ends.\<close>

definition str_strip :: "string \<Rightarrow> string" where
  "str_strip s = rev (dropWhile isspace (rev (dropWhile isspace s)))"

text \<open>\<open>s.strip(chars)\<close>: the characters of \<open>chars\<close> removed from both ends.\<close>

definition str_strip_chars :: "string \<Rightarrow> string \<Rightarrow> string" where
  "str_strip_chars chars s =
     rev (dropWhile (\<lambda>c. c \<in> set chars) (rev (dropWhile (\<lambda>c. c \<in> set chars) s)))"

text \<open>
  \<open>s.replace(old, new)\<close> where \<open>old\<close> is a single character, which is the only way
  the program calls it: every occurrence of \<open>old\<close> becomes the string \<open>new\<close>.
\<close>

definition str_replace :: "char \<Rightarrow> string \<Rightarrow> string \<Rightarrow> string" where
  "str_replace old new s = concat (map (\<lambda>c. if c = old then new else [c]) s)"

text \<open>
  \<open>s.split(sep)\<close> for a single-character separator: the result is never empty, and
  \<open>"".split(",")\<close> is \<open>[""]\<close>.
\<close>

fun str_split :: "char \<Rightarrow> string \<Rightarrow> string list" where
  "str_split sep [] = [[]]"
| "str_split sep (c # cs) =
     (if c = sep then [] # str_split sep cs
      else (case str_split sep cs of
              w # ws \<Rightarrow> (c # w) # ws
            | [] \<Rightarrow> [[c]]))"

text \<open>\<open>str(n)\<close> for an integer: its decimal digits, with a minus sign when negative.\<close>

fun str_nat :: "nat \<Rightarrow> string" where
  "str_nat n =
     (if n < 10 then [char_of (48 + n)]
      else str_nat (n div 10) @ [char_of (48 + n mod 10)])"

definition str_int :: "int \<Rightarrow> string" where
  "str_int k = (if k < 0 then CHR ''-'' # str_nat (nat (- k)) else str_nat (nat k))"

section \<open>Filename sanitization\<close>

text \<open>
  \<^verbatim>\<open>
  def sanitize_filename(name):
      invalid_chars = '<>:"/\\|?*'
      for char in invalid_chars:
          name = name.replace(char, '')
      if len(name) > 100:
          name = name[:100]
      name = name.strip().strip('.')
      return name
  \<close>
  The double quote and the backslash are written by their code points.
\<close>

definition invalid_chars :: string where
  "invalid_chars =
     [CHR ''<'', CHR ''>'', CHR '':'', CHR 0x22, CHR ''/'', CHR 0x5C, CHR ''|'',
      CHR ''?'', CHR ''*'']"

definition sanitize_filename :: "string \<Rightarrow> string" where
  "sanitize_filename name =
     (let name1 = fold (\<lambda>char n. str_replace char [] n) invalid_chars name;
          name2 = (if length name1 > 100 then take 100 name1 else name1)
      in str_strip_chars ''.'' (str_strip name2))"

section \<open>Paths\<close>

text \<open>
  \<open>os.path.join(a, b)\<close> on Windows, whose path syntax the program hard-codes, for a
  second component that is relative and names no drive (every second component the
  program passes is a sanitized folder name or \<open>output_N.gif\<close>): a backslash is put
  between the two unless \<open>a\<close> is empty, already ends with a separator, or is a bare
  drive (one character and a colon, as \<open>C:\<close>).
\<close>

definition os_path_join :: "string \<Rightarrow> string \<Rightarrow> string" where
  "os_path_join a b =
     (if a = [] \<or> last a \<in> {CHR 0x5C, CHR ''/''} \<or> (length a = 2 \<and> last a = CHR '':'')
      then a @ b
      else a @ [CHR 0x5C] @ b)"

definition gif_base_dir :: string where
  "gif_base_dir =
     ''C:'' @ [CHR 0x5C] @ ''Users'' @ [CHR 0x5C] @ ''harip'' @ [CHR 0x5C] @ ''ALL TEST''"

text \<open>
  The main flow (lines 429-430):
  \<^verbatim>\<open>
  folder_name = sanitize_filename(video_title.replace(" ", "_") + "_gifs")
  final_output_dir = os.path.join(r"C:\Users\harip\ALL TEST", folder_name)
  \<close>
\<close>

definition final_output_dir :: "string \<Rightarrow> string" where
  "final_output_dir video_title =
     (let folder_name = sanitize_filename (str_replace (CHR '' '') ''_'' video_title @ ''_gifs'')
      in os_path_join gif_base_dir folder_name)"

text \<open>
  The uploader, inside \<open>start_process\<close> (lines 352-353), from the title it was
  constructed with:
  \<^verbatim>\<open>
  folder_name = sanitize_filename(self.video_title.replace(" ", "_") + "_gifs")
  gif_directory = os.path.join(r"C:\Users\harip\ALL TEST", folder_name)
  \<close>
\<close>

definition gif_directory :: "string \<Rightarrow> string" where
  "gif_directory self_video_title =
     (let folder_name =
            sanitize_filename (str_replace (CHR '' '') ''_'' self_video_title @ ''_gifs'')
      in os_path_join gif_base_dir folder_name)"

section \<open>Tag parsing\<close>

text \<open>
  In \<open>generate_and_paste_tags\<close> (lines 299-303):
  \<^verbatim>\<open>
  text_response = response.text.strip()
  tags = [tag.strip() for tag in text_response.replace("\n", "").split(",") if tag.strip()]
  if not tags:
      tags = ["#gif", "#animation", "#fun", "#trending", "#viral", "#meme"]
  \<close>
\<close>

definition default_tags_empty :: "string list" where
  "default_tags_empty =
     [''#gif'', ''#animation'', ''#fun'', ''#trending'', ''#viral'', ''#meme'']"

definition parse_tags :: "string \<Rightarrow> string list" where
  "parse_tags response_text =
     (let text_response = str_strip response_text;
          tags = [str_strip tag.
                    tag \<leftarrow> str_split (CHR '','') (str_replace (CHR 0x0A) [] text_response),
                    str_strip tag \<noteq> []]
      in if tags = [] then default_tags_empty else tags)"

text \<open>
  The parse as the specification words it: split the response on commas, trim
  whitespace from each entry, drop the empty entries, and nothing else.
\<close>

definition spec_parse_tags :: "string \<Rightarrow> string list" where
  "spec_parse_tags response =
     [str_strip entry. entry \<leftarrow> str_split (CHR '','') response, str_strip entry \<noteq> []]"

section \<open>Python floats\<close>

text \<open>
  A Python \<open>float\<close> is an IEEE-754 binary64 value: a finite value (kept as the
  rational it denotes; the two zeros are not told apart, which no operation used here
  can observe), an infinity or a NaN.  Results are rounded to the nearest double, ties
  to even, as the hardware does.
\<close>

datatype py_error = ValueError | OverflowError | ZeroDivisionError

datatype pyfloat = Finite rat | PosInf | NegInf | NaN

text \<open>\<open>bit_length\<close> is \<open>int.bit_length\<close> on a non-negative integer.\<close>

function bit_length :: "int \<Rightarrow> int" where
  "bit_length n = (if n \<le> 0 then 0 else 1 + bit_length (n div 2))"
  by pat_completeness auto
termination
  by (relation "measure nat") auto

declare bit_length.simps [simp del]

definition pow2 :: "int \<Rightarrow> rat" where
  "pow2 e = (if 0 \<le> e then of_int (2 ^ nat e) else 1 / of_int (2 ^ nat (- e)))"

definition pow10 :: "int \<Rightarrow> rat" where
  "pow10 e = (if 0 \<le> e then of_int (10 ^ nat e) else 1 / of_int (10 ^ nat (- e)))"

text \<open>For \<open>a > 0\<close>, \<open>floor_log2 a\<close> is the integer \<open>k\<close> with \<open>2^k \<le> a < 2^(k+1)\<close>.\<close>

definition floor_log2 :: "rat \<Rightarrow> int" where
  "floor_log2 a =
     (if 1 \<le> a then bit_length \<lfloor>a\<rfloor> - 1 else - bit_length (\<lceil>1 / a\<rceil> - 1))"

definition round_half_even :: "rat \<Rightarrow> int" where
  "round_half_even y =
     (let f = \<lfloor>y\<rfloor>; r = y - of_int f
      in if r < 1 / 2 then f else if 1 / 2 < r then f + 1 else if even f then f else f + 1)"

text \<open>
  Rounding a rational to binary64: the value is scaled so that its significand has 53
  bits (fewer in the subnormal range, where the exponent stops at \<open>-1074\<close>), the
  significand is rounded to an integer, ties to even, and a result of \<open>2^1024\<close> or
  more is the infinity of that sign.
\<close>

definition round_double :: "rat \<Rightarrow> pyfloat" where
  "round_double x =
     (if x = 0 then Finite 0
      else let a = \<bar>x\<bar>;
               e = max (floor_log2 a - 52) (- 1074);
               r = of_int (round_half_even (a / pow2 e)) * pow2 e
           in if pow2 1024 \<le> r then (if 0 < x then PosInf else NegInf)
              else Finite (sgn x * r))"

subsection \<open>\<open>float(s)\<close> on a string\<close>

text \<open>
  \<open>float\<close> strips the whitespace it knows (code points 9..13, 32, and the non-ASCII
  whitespace 133 and 160), checks that every underscore stands between two digits and
  drops it, and then reads a sign followed by a decimal literal
  (\<open>digits [. digits] [e [sign] digits]\<close> with at least one digit before the exponent)
  or by \<open>inf\<close>, \<open>infinity\<close> or \<open>nan\<close> in any case.  Anything else is a
  \<open>ValueError\<close>.  The decimal value is rounded to the nearest double; a literal too
  large for a double is an infinity, not an error.
\<close>

definition float_isspace :: "char \<Rightarrow> bool" where
  "float_isspace c =
     (let n = (of_char c :: nat) in (9 \<le> n \<and> n \<le> 13) \<or> n = 32 \<or> n = 133 \<or> n = 160)"

definition is_digit :: "char \<Rightarrow> bool" where
  "is_digit c = (let n = (of_char c :: nat) in 48 \<le> n \<and> n \<le> 57)"

definition digits_value :: "string \<Rightarrow> int" where
  "digits_value ds = foldl (\<lambda>acc c. 10 * acc + (of_char c - 48)) 0 ds"

definition to_lower :: "char \<Rightarrow> char" where
  "to_lower c = (let n = (of_char c :: nat) in if 65 \<le> n \<and> n \<le> 90 then char_of (n + 32) else c)"

fun remove_underscores :: "char \<Rightarrow> string \<Rightarrow> string option" where
  "remove_underscores prev [] = (if prev = CHR ''_'' then None else Some [])"
| "remove_underscores prev (c # cs) =
     (if c = CHR ''_'' then
        (if is_digit prev then remove_underscores c cs else None)
      else if prev = CHR ''_'' \<and> \<not> is_digit c then None
      else map_option ((#) c) (remove_underscores c cs))"

definition parse_exponent :: "string \<Rightarrow> int option" where
  "parse_exponent s =
     (case s of
        [] \<Rightarrow> Some 0
      | c # t \<Rightarrow>
          if c = CHR ''e'' \<or> c = CHR ''E'' then
            (let (sg, ds) =
                   (case t of
                      [] \<Rightarrow> (1, t)
                    | d # t' \<Rightarrow>
                        if d = CHR ''-'' then (- 1, t')
                        else if d = CHR ''+'' then (1, t')
                        else (1, t))
             in if ds \<noteq> [] \<and> list_all is_digit ds then Some (sg * digits_value ds) else None)
          else None)"

definition parse_decimal :: "string \<Rightarrow> rat option" where
  "parse_decimal s =
     (let ip = takeWhile is_digit s;
          r1 = dropWhile is_digit s;
          (fp, r2) =
            (case r1 of
               [] \<Rightarrow> ([], r1)
             | c # t \<Rightarrow>
                 if c = CHR ''.'' then (takeWhile is_digit t, dropWhile is_digit t)
                 else ([], r1))
      in if ip = [] \<and> fp = [] then None
         else (case parse_exponent r2 of
                 None \<Rightarrow> None
               | Some ex \<Rightarrow>
                   Some (of_int (digits_value (ip @ fp)) * pow10 (ex - int (length fp)))))"

definition parse_inf_or_nan :: "bool \<Rightarrow> string \<Rightarrow> pyfloat option" where
  "parse_inf_or_nan negative s =
     (let l = map to_lower s
      in if l = ''inf'' \<or> l = ''infinity'' then Some (if negative then NegInf else PosInf)
         else if l = ''nan'' then Some NaN
         else None)"

definition parse_float_literal :: "string \<Rightarrow> pyfloat option" where
  "parse_float_literal u =
     (let (negative, body) =
            (case u of
               [] \<Rightarrow> (False, u)
             | c # t \<Rightarrow>
                 if c = CHR ''-'' then (True, t)
                 else if c = CHR ''+'' then (False, t)
                 else (False, u))
      in case parse_decimal body of
           Some q \<Rightarrow> Some (round_double (if negative then - q else q))
         | None \<Rightarrow> parse_inf_or_nan negative body)"

definition py_float :: "string \<Rightarrow> py_error + pyfloat" where
  "py_float s =
     (let t = rev (dropWhile float_isspace (rev (dropWhile float_isspace s)))
      in case remove_underscores (CHR 0x00) t of
           None \<Rightarrow> Inl ValueError
         | Some u \<Rightarrow>
             (case parse_float_literal u of
                None \<Rightarrow> Inl ValueError
              | Some x \<Rightarrow> Inr x))"

subsection \<open>Division by an integer and \<open>math.ceil\<close>\<close>

text \<open>
  \<open>float / int\<close> converts the integer to a float (an \<open>OverflowError\<close> when it is
  too large), raises \<open>ZeroDivisionError\<close> on a zero divisor, and otherwise divides
  as IEEE-754 does.
\<close>

definition int_to_float :: "int \<Rightarrow> py_error + pyfloat" where
  "int_to_float k =
     (case round_double (of_int k) of
        Finite q \<Rightarrow> Inr (Finite q)
      | _ \<Rightarrow> Inl OverflowError)"

fun float_div :: "pyfloat \<Rightarrow> pyfloat \<Rightarrow> py_error + pyfloat" where
  "float_div x (Finite b) =
     (if b = 0 then Inl ZeroDivisionError
      else (case x of
              Finite a \<Rightarrow> Inr (round_double (a / b))
            | PosInf \<Rightarrow> Inr (if 0 < b then PosInf else NegInf)
            | NegInf \<Rightarrow> Inr (if 0 < b then NegInf else PosInf)
            | NaN \<Rightarrow> Inr NaN))"
| "float_div x NaN = Inr NaN"
| "float_div (Finite a) y = Inr (Finite 0)"
| "float_div x y = Inr NaN"

definition float_truediv :: "pyfloat \<Rightarrow> int \<Rightarrow> py_error + pyfloat" where
  "float_truediv x k =
     (case int_to_float k of
        Inl err \<Rightarrow> Inl err
      | Inr y \<Rightarrow> float_div x y)"

text \<open>
  \<open>math.ceil\<close> of a float is an exact integer; it raises \<open>ValueError\<close> on a NaN and
  \<open>OverflowError\<close> on an infinity.
\<close>

fun math_ceil :: "pyfloat \<Rightarrow> py_error + int" where
  "math_ceil (Finite q) = Inr \<lceil>q\<rceil>"
| "math_ceil NaN = Inl ValueError"
| "math_ceil PosInf = Inl OverflowError"
| "math_ceil NegInf = Inl OverflowError"

section \<open>The world outside the program\<close>

text \<open>
  Everything the program does to its surroundings is recorded in a \<open>world\<close>: the
  paths that exist on disk, and the trace of effects in the order they happen.  What
  the surroundings answer is given by an \<open>env\<close>: the line typed at the prompt, what
  the download utility returns and leaves on disk, what a subprocess prints, which
  automation call or status update raises, and what the text model answers.  A call
  that raises is recorded with its exception.  Sleeps are not recorded.
\<close>

datatype exn = FailSafeException | OtherException string

datatype console =
    NoUrl
  | Attempting string
  | DownloadComplete
  | DownloadError
  | DownloadFailed
  | Downloaded string string
  | CreatingGifsIn string
  | CreatedOutputDir string
  | UsingOutputDir string
  | DurationError
  | VideoLength pyfloat
  | CreatingClips int int
  | Saved string
  | ConversionCompleted string string
  | Cooldown int
  | AutoStart
  | TagsGenerated "string list"
  | TagError exn

datatype action =
    OpenBrowser string
  | Click int int
  | WriteText string
  | Press string
  | Hotkey string string
  | Copy string
  | Generate string

datatype event =
    Print console
  | MakeDirs string
  | Run "string list"
  | Status string "exn option"
  | Act action "exn option"

record world =
  fs :: "string list"
  trace :: "event list"

record env =
  stdin_line :: string
  ydl_extract :: "string \<Rightarrow> (string \<times> string) option"
  ydl_files :: "string \<Rightarrow> string list"
  run_stdout :: "string list \<Rightarrow> string"
  fail_at :: "nat \<Rightarrow> exn option"
  generate_content :: "string \<Rightarrow> exn + string"
  gemini_setup_ok :: bool

definition emit :: "event \<Rightarrow> world \<Rightarrow> world" where
  "emit ev w = w\<lparr>trace := trace w @ [ev]\<rparr>"

definition py_print :: "console \<Rightarrow> world \<Rightarrow> world" where
  "py_print msg w = emit (Print msg) w"

definition path_exists :: "world \<Rightarrow> string \<Rightarrow> bool" where
  "path_exists w p = (p \<in> set (fs w))"

definition makedirs :: "string \<Rightarrow> world \<Rightarrow> world" where
  "makedirs p w = emit (MakeDirs p) (w\<lparr>fs := p # fs w\<rparr>)"

text \<open>\<open>subprocess.run(argv, ...)\<close>: the call is recorded, its output comes from the environment.\<close>

definition subprocess_run :: "env \<Rightarrow> string list \<Rightarrow> world \<Rightarrow> string \<times> world" where
  "subprocess_run en argv w = (run_stdout en argv, emit (Run argv) w)"

section \<open>The segmenter\<close>

text \<open>
  \<^verbatim>\<open>
  def video_to_gifs(video_path, output_dir, clip_length=3, fps=15):
      if not os.path.exists(output_dir):
          os.makedirs(output_dir)
          print(f"Created output directory: {output_dir}")
      else:
          print(f"Using existing output directory: {output_dir}")
      result = subprocess.run(["ffprobe", "-v", "error", "-show_entries", "format=duration",
           "-of", "default=noprint_wrappers=1:nokey=1", video_path], ...)
      try:
          duration = float(result.stdout.strip())
      except ValueError:
          print("Could not read video duration. Check ffmpeg installation.")
          return
      print(f"Video length: {duration:.2f} seconds")
      num_clips = math.ceil(duration / clip_length)
      print(f"Creating {num_clips} GIF clips of {clip_length} seconds each...")
      for i in range(num_clips):
          start = i * clip_length
          output_path = os.path.join(output_dir, f"output_{i+1}.gif")
          command = ["ffmpeg", "-y", "-ss", str(start), "-t", str(clip_length),
              "-i", video_path, "-vf", f"fps={fps},scale=480:-1:flags=lanczos", output_path]
          subprocess.run(command, stdout=subprocess.DEVNULL, stderr=subprocess.STDOUT)
          print(f"Saved: {output_path}")
  \<close>
  The clip length and the frame rate are integers, as the defaults are and as the only
  call leaves them.  An exception that the function does not catch (from the division
  or from \<open>math.ceil\<close>) is returned as \<open>Some\<close> error next to the world it left.
\<close>

definition ffprobe_command :: "string \<Rightarrow> string list" where
  "ffprobe_command video_path =
     [''ffprobe'', ''-v'', ''error'', ''-show_entries'', ''format=duration'',
      ''-of'', ''default=noprint_wrappers=1:nokey=1'', video_path]"

definition ffmpeg_command :: "string \<Rightarrow> int \<Rightarrow> int \<Rightarrow> int \<Rightarrow> string \<Rightarrow> string list" where
  "ffmpeg_command video_path start clip_length fps output_path =
     [''ffmpeg'', ''-y'',
      ''-ss'', str_int start,
      ''-t'', str_int clip_length,
      ''-i'', video_path,
      ''-vf'', ''fps='' @ str_int fps @ '',scale=480:-1:flags=lanczos'',
      output_path]"

text \<open>\<open>range(n)\<close>: the integers from 0 up to \<open>n - 1\<close>, none when \<open>n \<le> 0\<close>.\<close>

definition py_range :: "int \<Rightarrow> int list" where
  "py_range n = [0..n - 1]"

text \<open>The body of the loop, for the clip index \<open>i\<close>.\<close>

definition make_clip :: "env \<Rightarrow> string \<Rightarrow> string \<Rightarrow> int \<Rightarrow> int \<Rightarrow> int \<Rightarrow> world \<Rightarrow> world" where
  "make_clip en video_path output_dir clip_length fps i w =
     (let start = i * clip_length;
          output_path = os_path_join output_dir (''output_'' @ str_int (i + 1) @ ''.gif'');
          command = ffmpeg_command video_path start clip_length fps output_path;
          (out, w1) = subprocess_run en command w
      in py_print (Saved output_path) w1)"

text \<open>Line 100: \<open>num_clips = math.ceil(duration / clip_length)\<close>.\<close>

definition num_clips :: "pyfloat \<Rightarrow> int \<Rightarrow> py_error + int" where
  "num_clips duration clip_length =
     (case float_truediv duration clip_length of
        Inl err \<Rightarrow> Inl err
      | Inr ratio \<Rightarrow> math_ceil ratio)"

definition video_to_gifs ::
  "env \<Rightarrow> string \<Rightarrow> string \<Rightarrow> int \<Rightarrow> int \<Rightarrow> world \<Rightarrow> py_error option \<times> world" where
  "video_to_gifs en video_path output_dir clip_length fps w =
     (let w1 = (if \<not> path_exists w output_dir
                then py_print (CreatedOutputDir output_dir) (makedirs output_dir w)
                else py_print (UsingOutputDir output_dir) w);
          (stdout, w2) = subprocess_run en (ffprobe_command video_path) w1
      in case py_float (str_strip stdout) of
           Inl ValueError \<Rightarrow> (None, py_print DurationError w2)
         | Inl err \<Rightarrow> (Some err, w2)
         | Inr duration \<Rightarrow>
             (let w3 = py_print (VideoLength duration) w2
              in case num_clips duration clip_length of
                   Inl err \<Rightarrow> (Some err, w3)
                 | Inr n \<Rightarrow>
                     (let w4 = py_print (CreatingClips n clip_length) w3
                      in (None,
                          fold (make_clip en video_path output_dir clip_length fps)
                            (py_range n) w4))))"

text \<open>The transcoder invocations of a trace: the subprocess calls of \<open>ffmpeg\<close>.\<close>

fun is_transcode :: "event \<Rightarrow> bool" where
  "is_transcode (Run argv) = (take 1 argv = [''ffmpeg''])"
| "is_transcode ev = False"

definition transcoder_calls :: "world \<Rightarrow> event list" where
  "transcoder_calls w = filter is_transcode (trace w)"

section \<open>The uploader\<close>

text \<open>
  The uploader object keeps the title it was built with and whether the text model
  could be set up.  A step of the automation is a status update or an automation call.
  Either may raise, as the environment decides: the step at position \<open>n\<close> of the trace
  raises \<open>e\<close> when \<open>fail_at en n = Some e\<close>.  A step that raises is recorded with its
  exception and has no effect.

  \<^verbatim>\<open>
  def update_status(self, message):
      self.status.set(message)
      self.root.update()
  \<close>
  Both calls go to the window toolkit and raise once the window is gone.
\<close>

record uploader =
  video_title :: string
  gemini_available :: bool

datatype step = DoStatus string | DoAct action

definition update_status :: "env \<Rightarrow> string \<Rightarrow> world \<Rightarrow> exn option \<times> world" where
  "update_status en message w =
     (let r = fail_at en (length (trace w)) in (r, emit (Status message r) w))"

definition perform :: "env \<Rightarrow> action \<Rightarrow> world \<Rightarrow> exn option \<times> world" where
  "perform en a w = (let r = fail_at en (length (trace w)) in (r, emit (Act a r) w))"

text \<open>A straight-line run of steps stops at the first step that raises.\<close>

fun run_steps :: "env \<Rightarrow> step list \<Rightarrow> world \<Rightarrow> exn option \<times> world" where
  "run_steps en [] w = (None, w)"
| "run_steps en (DoStatus m # ss) w =
     (case update_status en m w of
        (None, w') \<Rightarrow> run_steps en ss w'
      | (Some e, w') \<Rightarrow> (Some e, w'))"
| "run_steps en (DoAct a # ss) w =
     (case perform en a w of
        (None, w') \<Rightarrow> run_steps en ss w'
      | (Some e, w') \<Rightarrow> (Some e, w'))"

text \<open>
  \<^verbatim>\<open>
  def click_at_position(self, x, y, description):
      self.update_status(f"Step: {description}")
      pyautogui.click(x, y)
      time.sleep(1)
  \<close>
\<close>

definition click_at_position :: "int \<Rightarrow> int \<Rightarrow> string \<Rightarrow> step list" where
  "click_at_position x y description = [DoStatus (''Step: '' @ description), DoAct (Click x y)]"

text \<open>
  Pasting a list of tags, the loop that occurs three times in
  \<open>generate_and_paste_tags\<close>:
  \<^verbatim>\<open>
  for tag in tags:
      pyperclip.copy(tag)
      pyautogui.hotkey("ctrl", "v")
      pyautogui.press("enter")
  \<close>
\<close>

definition paste_tags :: "string list \<Rightarrow> step list" where
  "paste_tags tags =
     concat (map (\<lambda>tag. [DoAct (Copy tag), DoAct (Hotkey ''ctrl'' ''v''), DoAct (Press ''enter'')])
       tags)"

text \<open>The default list of line 284, used when the text model is not available.\<close>

definition default_tags_unavailable :: "string list" where
  "default_tags_unavailable =
     [''#gif'', ''#animation'', ''#funny'', ''#meme'', ''#trending'', ''#viral'']"

text \<open>The default list of line 324, used when generating or pasting the tags raised.\<close>

definition default_tags_error :: "string list" where
  "default_tags_error =
     [''#gif'', ''#animation'', ''#fun'', ''#meme'', ''#trending'', ''#viral'']"

definition tag_prompt :: "string \<Rightarrow> string" where
  "tag_prompt topic =
     ''Generate 14 short, SEO-friendly hashtags for '' @ topic @
     ''. First always include the name I have given. Only output the tags separated by commas. ''
     @ ''Include 1 tag for hero and another tag for heroine, and one dedicated tag which is ''
     @ ''most popular or viral.''"

text \<open>\<open>self.model.generate_content(prompt)\<close> and reading \<open>response.text\<close>.\<close>

definition ask_model :: "env \<Rightarrow> string \<Rightarrow> world \<Rightarrow> (exn + string) \<times> world" where
  "ask_model en prompt w =
     (let r = generate_content en prompt
      in (r, emit (Act (Generate prompt) (case r of Inl e \<Rightarrow> Some e | Inr text_response \<Rightarrow> None)) w))"

text \<open>The body of the \<open>try\<close> of \<open>generate_and_paste_tags\<close> (lines 294-318).\<close>

definition generate_tags_try :: "env \<Rightarrow> string \<Rightarrow> world \<Rightarrow> exn option \<times> world" where
  "generate_tags_try en topic w =
     (case update_status en ''Generating tags with AI...'' w of
        (Some e, w1) \<Rightarrow> (Some e, w1)
      | (None, w1) \<Rightarrow>
          (case ask_model en (tag_prompt topic) w1 of
             (Inl e, w2) \<Rightarrow> (Some e, w2)
           | (Inr response_text, w2) \<Rightarrow>
               (let tags = parse_tags response_text;
                    w3 = py_print (TagsGenerated tags) w2
                in run_steps en (paste_tags tags @ [DoStatus ''Tags successfully added!'']) w3)))"

text \<open>
  \<open>generate_and_paste_tags\<close> (lines 280-330): without the model, the first default
  list is pasted with no handler around it; with it, any exception of the \<open>try\<close> body
  is caught, reported, and answered by pasting the second default list.
\<close>

definition generate_and_paste_tags ::
  "env \<Rightarrow> uploader \<Rightarrow> string \<Rightarrow> world \<Rightarrow> exn option \<times> world" where
  "generate_and_paste_tags en self topic w =
     (if \<not> gemini_available self then
        run_steps en
          (DoStatus ''Gemini AI not available - using default tags''
             # paste_tags default_tags_unavailable) w
      else (case generate_tags_try en topic w of
              (None, w1) \<Rightarrow> (None, w1)
            | (Some e, w1) \<Rightarrow>
                run_steps en
                  (DoStatus ''Error generating tags - using defaults''
                     # paste_tags default_tags_error)
                  (py_print (TagError e) w1)))"

text \<open>The steps of \<open>start_process\<close> before the tags (lines 337-382).\<close>

definition steps_before_tags :: "uploader \<Rightarrow> step list" where
  "steps_before_tags self =
     [DoStatus ''Opening GIPHY website...'', DoAct (OpenBrowser ''https://giphy.com/'')]
     @ click_at_position 1229 191 ''Clicking on upload button''
     @ click_at_position 705 714 ''Clicking on file selection area''
     @ click_at_position 445 167 ''Clicking on path input''
     @ [DoStatus (''Pasting file path: '' @ gif_directory (video_title self)),
        DoAct (WriteText (gif_directory (video_title self))),
        DoAct (Press ''enter'')]
     @ click_at_position 765 165 ''Clicking on name field''
     @ [DoStatus (''Entering name: '' @ video_title self),
        DoAct (WriteText (video_title self))]
     @ click_at_position 376 234 ''Clicking on file area to focus''
     @ [DoAct (Hotkey ''ctrl'' ''a'')]
     @ click_at_position 770 628 ''Confirming selection - Clicking Open''
     @ [DoStatus ''Waiting for GIF to upload and process (45 seconds)...'']
     @ map (\<lambda>i. DoStatus (''Processing... '' @ str_int i @ '' seconds remaining''))
         [45, 40, 35, 30, 25, 20, 15, 10, 5]
     @ click_at_position 1211 603 ''Opening tags section''"

text \<open>The steps after the tags (lines 388-390).\<close>

definition steps_after_tags :: "step list" where
  "steps_after_tags =
     click_at_position 1257 1035 ''Final upload''
     @ [DoStatus ''Upload process completed successfully!'']"

text \<open>The body of the \<open>try\<close> of \<open>start_process\<close>.\<close>

definition start_process_try :: "env \<Rightarrow> uploader \<Rightarrow> world \<Rightarrow> exn option \<times> world" where
  "start_process_try en self w =
     (case run_steps en (steps_before_tags self) w of
        (Some e, w1) \<Rightarrow> (Some e, w1)
      | (None, w1) \<Rightarrow>
          (case generate_and_paste_tags en self (video_title self) w1 of
             (Some e, w2) \<Rightarrow> (Some e, w2)
           | (None, w2) \<Rightarrow> run_steps en steps_after_tags w2))"

text \<open>What the two handlers of \<open>start_process\<close> show for an exception.\<close>

fun report :: "exn \<Rightarrow> string" where
  "report FailSafeException = ''Process was aborted by moving mouse to corner''"
| "report (OtherException message) = ''An error occurred: '' @ message"

text \<open>
  \<open>start_process\<close> (lines 332-395).  The first status update stands before the \<open>try\<close>,
  and each handler is one status update; an exception from either leaves the method.
  The first component of the result is the exception that leaves the method, if any.
\<close>

definition start_process :: "env \<Rightarrow> uploader \<Rightarrow> world \<Rightarrow> exn option \<times> world" where
  "start_process en self w =
     (case update_status en ''Starting GIPHY upload process...'' w of
        (Some e, w0) \<Rightarrow> (Some e, w0)
      | (None, w0) \<Rightarrow>
          (case start_process_try en self w0 of
             (None, w1) \<Rightarrow> (None, w1)
           | (Some e, w1) \<Rightarrow> update_status en (report e) w1))"

section \<open>The main flow\<close>

definition download_dir :: string where
  "download_dir = ''D:'' @ [CHR 0x5C] @ ''downloads''"

text \<open>
  \<open>download_video_from_url\<close> (lines 32-69): both handlers return \<open>(None, None)\<close>,
  which is \<open>None\<close> here; a download that succeeds returns the file name and the title.
\<close>

definition download_video_from_url ::
  "env \<Rightarrow> string \<Rightarrow> world \<Rightarrow> (string \<times> string) option \<times> world" where
  "download_video_from_url en url w =
     (let w1 = (if \<not> path_exists w download_dir then makedirs download_dir w else w);
          w2 = py_print (Attempting url) w1;
          w3 = w2\<lparr>fs := ydl_files en url @ fs w2\<rparr>
      in case ydl_extract en url of
           Some (downloaded_file, title) \<Rightarrow>
             (Some (downloaded_file, title), py_print DownloadComplete w3)
         | None \<Rightarrow> (None, py_print DownloadError w3))"

text \<open>
  The script body (lines 401-463).  The result is the error that ends the program, if
  one does, and the world it leaves.  The uploader window runs \<open>start_process\<close> once,
  started by its timer; an exception that leaves \<open>start_process\<close> there is reported by
  the window toolkit and does not end the program.
\<close>

definition main_flow :: "env \<Rightarrow> world \<Rightarrow> py_error option \<times> world" where
  "main_flow en w =
     (let video_link = str_strip (stdin_line en)
      in if video_link = [] then (None, py_print NoUrl w)
         else (case download_video_from_url en video_link w of
                 (None, w1) \<Rightarrow> (None, py_print DownloadFailed w1)
               | (Some (downloaded_video_path, title), w1) \<Rightarrow>
                   if downloaded_video_path = [] \<or> \<not> path_exists w1 downloaded_video_path
                   then (None, py_print DownloadFailed w1)
                   else
                     (let w2 = py_print (Downloaded downloaded_video_path title) w1;
                          w3 = py_print (CreatingGifsIn (final_output_dir title)) w2
                      in case video_to_gifs en downloaded_video_path (final_output_dir title) 3 15 w3 of
                           (Some err, w4) \<Rightarrow> (Some err, w4)
                         | (None, w4) \<Rightarrow>
                             (let w5 = py_print
                                         (ConversionCompleted downloaded_video_path
                                            (final_output_dir title)) w4;
                                  w6 = fold (\<lambda>i. py_print (Cooldown i))
                                         [10, 9, 8, 7, 6, 5, 4, 3, 2, 1] w5;
                                  w7 = py_print AutoStart w6;
                                  app = \<lparr>video_title = title,
                                         gemini_available = gemini_setup_ok en\<rparr>
                              in (None, snd (start_process en app w7))))))"

section \<open>Concrete surroundings\<close>

text \<open>
  Surroundings to run the program in: an empty disk and trace, and an environment in
  which the probe prints a given text, nothing is typed, no download succeeds, the
  text model answers with a given result, and the automation call at a given
  position of the trace (if any) raises a given exception.
\<close>

definition empty_world :: world where
  "empty_world = \<lparr>fs = [], trace = []\<rparr>"

definition probe_env :: "string \<Rightarrow> env" where
  "probe_env out =
     \<lparr>stdin_line = [], ydl_extract = (\<lambda>url. None), ydl_files = (\<lambda>url. []),
      run_stdout = (\<lambda>argv. out), fail_at = (\<lambda>n. None),
      generate_content = (\<lambda>prompt. Inr []), gemini_setup_ok = True\<rparr>"

definition model_env :: "(exn + string) \<Rightarrow> (nat \<times> exn) option \<Rightarrow> env" where
  "model_env answer failure =
     \<lparr>stdin_line = [], ydl_extract = (\<lambda>url. None), ydl_files = (\<lambda>url. []),
      run_stdout = (\<lambda>argv. []),
      fail_at = (\<lambda>n. case failure of
                        None \<Rightarrow> None
                      | Some (k, e) \<Rightarrow> if n = k then Some e else None),
      generate_content = (\<lambda>prompt. answer), gemini_setup_ok = True\<rparr>"

text \<open>An uploader object, and a text model that fails.\<close>

definition some_uploader :: "bool \<Rightarrow> uploader" where
  "some_uploader available = \<lparr>video_title = ''My Clip'', gemini_available = available\<rparr>"

definition quota_error :: "exn + string" where
  "quota_error = Inl (OtherException ''quota exceeded'')"

text \<open>
  An environment in which the text model answers with two tags and the step at
  position \<open>k\<close> of the trace raises the fail-safe abort; and two runs of
  \<open>start_process\<close> from the empty world in which that step is the paste key for the
  first tag: position 37 with the text model (after the first status, the 32 steps
  before the tags, the status, the request, the printed list and the copy of the
  first tag), position 35 without it.
\<close>

definition failsafe_at :: "nat \<Rightarrow> env" where
  "failsafe_at k = model_env (Inr ''#a,#b'') (Some (k, FailSafeException))"

definition run_with_model :: "exn option \<times> world" where
  "run_with_model = start_process (failsafe_at 37) (some_uploader True) empty_world"

definition run_without_model :: "exn option \<times> world" where
  "run_without_model = start_process (failsafe_at 35) (some_uploader False) empty_world"

text \<open>
  An environment in which a URL is typed and the download utility answers in a given
  way, leaving the given files on disk.
\<close>

definition download_env :: "(string \<times> string) option \<Rightarrow> string list \<Rightarrow> env" where
  "download_env result files =
     \<lparr>stdin_line = '' https://example.com/v '', ydl_extract = (\<lambda>url. result),
      ydl_files = (\<lambda>url. files), run_stdout = (\<lambda>argv. ''10.000000''),
      fail_at = (\<lambda>n. None), generate_content = (\<lambda>prompt. Inr []),
      gemini_setup_ok = True\<rparr>"

section \<open>Auxiliary definitions\<close>


text \<open>The part of the function before the duration is parsed.\<close>

definition probed :: "env \<Rightarrow> string \<Rightarrow> string \<Rightarrow> world \<Rightarrow> world" where
  "probed en video_path output_dir w =
     emit (Run (ffprobe_command video_path))
       (if \<not> path_exists w output_dir
        then py_print (CreatedOutputDir output_dir) (makedirs output_dir w)
        else py_print (UsingOutputDir output_dir) w)"

text \<open>The tags a trace shows as put on the clipboard for pasting, in order.\<close>

fun copied_tag :: "event \<Rightarrow> string list" where
  "copied_tag (Act (Copy tag) None) = [tag]"
| "copied_tag ev = []"

definition pasted_tags :: "world \<Rightarrow> string list" where
  "pasted_tags w = concat (map copied_tag (trace w))"

text \<open>The event a step leaves when its call does not raise.\<close>

fun step_event :: "step \<Rightarrow> event" where
  "step_event (DoStatus m) = Status m None"
| "step_event (DoAct a) = Act a None"

text \<open>
  The automation calls that a trace shows as carried out after its first automation
  call that raised.
\<close>

fun done_act :: "event \<Rightarrow> action list" where
  "done_act (Act a None) = [a]"
| "done_act ev = []"

fun acts_after_failure :: "event list \<Rightarrow> action list" where
  "acts_after_failure [] = []"
| "acts_after_failure (Act a (Some e) # evs) = concat (map done_act evs)"
| "acts_after_failure (ev # evs) = acts_after_failure evs"

text \<open>
  The exponent of the last place of the double nearest to \<open>a > 0\<close>, and the magnitude
  of that double before the overflow check.
\<close>

definition ulp_exponent :: "rat \<Rightarrow> int" where
  "ulp_exponent a = max (floor_log2 a - 52) (- 1074)"

definition round_magnitude :: "rat \<Rightarrow> rat" where
  "round_magnitude a =
     of_int (round_half_even (a / pow2 (ulp_exponent a))) * pow2 (ulp_exponent a)"

text \<open>
  The time window that a transcoder call asks for, read back from its arguments: the
  integer after \<open>-ss\<close> is the second at which the clip starts, the integer after
  \<open>-t\<close> is how many seconds it lasts.  \<open>read_int\<close> reads decimal digits with an
  optional minus sign.
\<close>

fun arg_after :: "string \<Rightarrow> string list \<Rightarrow> string option" where
  "arg_after opt (a # b # rest) = (if a = opt then Some b else arg_after opt (b # rest))"
| "arg_after opt rest = None"

definition read_int :: "string \<Rightarrow> int option" where
  "read_int s =
     (case s of
        [] \<Rightarrow> None
      | c # t \<Rightarrow>
          if c = CHR ''-'' then
            (if t \<noteq> [] \<and> list_all is_digit t then Some (- digits_value t) else None)
          else if list_all is_digit s then Some (digits_value s)
          else None)"

fun clip_window :: "event \<Rightarrow> (int \<times> int) option" where
  "clip_window (Run argv) =
     (case (Option.bind (arg_after ''-ss'' argv) read_int,
            Option.bind (arg_after ''-t'' argv) read_int) of
        (Some start, Some seconds) \<Rightarrow> Some (start, start + seconds)
      | _ \<Rightarrow> None)"
| "clip_window ev = None"

section \<open>Facts about the string functions\<close>

lemma str_replace_delete: "str_replace c [] s = filter (\<lambda>x. x \<noteq> c) s"
  by (induction s) (simp_all add: str_replace_def)

lemma set_fold_delete:
  "set (fold (\<lambda>char n. str_replace char [] n) cs s) = set s - set cs"
  by (induction cs arbitrary: s) (auto simp: str_replace_delete)

lemma set_str_strip: "set (str_strip s) \<subseteq> set s"
  unfolding str_strip_def
  by (metis set_dropWhileD set_rev subsetI)

lemma length_str_strip: "length (str_strip s) \<le> length s"
  unfolding str_strip_def
  by (metis length_dropWhile_le length_rev order_trans)

lemma set_str_strip_chars: "set (str_strip_chars cs s) \<subseteq> set s"
  unfolding str_strip_chars_def
  by (metis set_dropWhileD set_rev subsetI)

lemma length_str_strip_chars: "length (str_strip_chars cs s) \<le> length s"
  unfolding str_strip_chars_def
  by (metis length_dropWhile_le length_rev order_trans)

lemma sanitize_filename_no_invalid:
  "set (sanitize_filename name) \<inter> set invalid_chars = {}"
proof -
  let ?n1 = "fold (\<lambda>char n. str_replace char [] n) invalid_chars name"
  let ?n2 = "if length ?n1 > 100 then take 100 ?n1 else ?n1"
  have "set ?n2 \<subseteq> set ?n1"
    by (auto dest: in_set_takeD)
  moreover have "set (sanitize_filename name) \<subseteq> set ?n2"
    unfolding sanitize_filename_def Let_def
    using set_str_strip_chars set_str_strip by (meson order_trans)
  ultimately show ?thesis
    by (auto simp: set_fold_delete)
qed

lemma sanitize_filename_length: "length (sanitize_filename name) \<le> 100"
proof -
  let ?n1 = "fold (\<lambda>char n. str_replace char [] n) invalid_chars name"
  let ?n2 = "if length ?n1 > 100 then take 100 ?n1 else ?n1"
  have "length ?n2 \<le> 100"
    by simp
  moreover have "length (sanitize_filename name) \<le> length ?n2"
    unfolding sanitize_filename_def Let_def
    using length_str_strip_chars length_str_strip by (meson order_trans)
  ultimately show ?thesis
    by linarith
qed

lemma sanitize_filename_example: "sanitize_filename ''A:B*C'' = ''ABC''"
  by (simp add: sanitize_filename_def invalid_chars_def str_replace_def str_strip_def
      str_strip_chars_def isspace_def)

subsection \<open>Splitting and stripping\<close>

lemma str_split_nonempty: "str_split sep s \<noteq> []"
  by (induction s) (auto split: list.splits)

lemma str_strip_ws_cons: "isspace x \<Longrightarrow> str_strip (x # s) = str_strip s"
  by (simp add: str_strip_def)

lemma str_strip_ws_prefix: "\<forall>x\<in>set xs. isspace x \<Longrightarrow> str_strip (xs @ s) = str_strip s"
  by (induction xs) (simp_all add: str_strip_ws_cons)

lemma dropWhile_all: "\<forall>x\<in>set xs. P x \<Longrightarrow> dropWhile P (xs @ ys) = dropWhile P ys"
  by (induction xs) simp_all

lemma str_strip_ws_suffix: "\<forall>x\<in>set ys. isspace x \<Longrightarrow> str_strip (s @ ys) = str_strip s"
proof (cases "\<forall>x\<in>set s. isspace x")
  case True
  assume "\<forall>x\<in>set ys. isspace x"
  with True have a: "dropWhile isspace (s @ ys) = []" and b: "dropWhile isspace s = []"
    by (auto simp: dropWhile_eq_Nil_conv)
  show ?thesis unfolding str_strip_def a b ..
next
  case False
  assume ys: "\<forall>x\<in>set ys. isspace x"
  from False have "dropWhile isspace (s @ ys) = dropWhile isspace s @ ys"
    by (auto simp: dropWhile_append1)
  then show ?thesis
    using ys by (simp add: str_strip_def dropWhile_all)
qed

lemma str_split_prefix:
  "sep \<notin> set xs \<Longrightarrow> str_split sep (xs @ s) = (xs @ hd (str_split sep s)) # tl (str_split sep s)"
  by (induction xs) (auto simp: str_split_nonempty split: list.splits)

lemma str_split_suffix:
  "sep \<notin> set ys \<Longrightarrow> str_split sep (s @ ys) = butlast (str_split sep s) @ [last (str_split sep s) @ ys]"
proof (induction s)
  case Nil
  then show ?case using str_split_prefix[of sep ys "[]"] by simp
next
  case (Cons a s)
  then show ?case
    by (auto simp: str_split_nonempty split: list.splits)
qed

lemma not_isspace_comma: "\<not> isspace (CHR '','')"
  by (simp add: isspace_def)

lemma map_strip_split_pad:
  assumes "\<forall>x\<in>set xs. isspace x" "\<forall>x\<in>set ys. isspace x"
  shows "map str_strip (str_split (CHR '','') (xs @ s @ ys)) = map str_strip (str_split (CHR '','') s)"
proof -
  have nx: "CHR '','' \<notin> set xs" and ny: "CHR '','' \<notin> set ys"
    using assms not_isspace_comma by auto
  obtain w ws where sp: "str_split (CHR '','') (s @ ys) = w # ws"
    using str_split_nonempty by (cases "str_split (CHR '','') (s @ ys)") auto
  have "map str_strip (str_split (CHR '','') (xs @ s @ ys)) = map str_strip (str_split (CHR '','') (s @ ys))"
    using str_split_prefix[OF nx, of "s @ ys"] sp assms(1) by (simp add: str_strip_ws_prefix)
  also have "\<dots> = map str_strip (butlast (str_split (CHR '','') s) @ [last (str_split (CHR '','') s)])"
    using str_split_suffix[OF ny, of s] assms(2) by (simp add: str_strip_ws_suffix)
  also have "\<dots> = map str_strip (str_split (CHR '','') s)"
    using str_split_nonempty by simp
  finally show ?thesis .
qed

lemma str_strip_decomp:
  "\<exists>xs ys. s = xs @ str_strip s @ ys \<and> (\<forall>x\<in>set xs. isspace x) \<and> (\<forall>x\<in>set ys. isspace x)"
proof -
  let ?d = "dropWhile isspace s"
  have 1: "s = takeWhile isspace s @ ?d" by simp
  have 2: "rev ?d = takeWhile isspace (rev ?d) @ dropWhile isspace (rev ?d)" by simp
  have "?d = rev (dropWhile isspace (rev ?d)) @ rev (takeWhile isspace (rev ?d))"
    by (metis 2 rev_append rev_rev_ident)
  then have "s = takeWhile isspace s @ str_strip s @ rev (takeWhile isspace (rev ?d))"
    unfolding str_strip_def using 1 by metis
  moreover have "\<forall>x\<in>set (takeWhile isspace s). isspace x"
    by (auto dest: set_takeWhileD)
  moreover have "\<forall>x\<in>set (rev (takeWhile isspace (rev ?d))). isspace x"
    by (auto dest: set_takeWhileD)
  ultimately show ?thesis by blast
qed

lemma isspace_delete: "\<forall>x\<in>set xs. isspace x \<Longrightarrow> \<forall>x\<in>set (str_replace c [] xs). isspace x"
  by (simp add: str_replace_delete)

lemma str_replace_append: "str_replace c n (xs @ ys) = str_replace c n xs @ str_replace c n ys"
  by (simp add: str_replace_def)

lemma map_strip_split_strip:
  "map str_strip (str_split (CHR '','') (str_replace c [] (str_strip s)))
     = map str_strip (str_split (CHR '','') (str_replace c [] s))"
proof -
  obtain xs ys where d: "s = xs @ str_strip s @ ys" "\<forall>x\<in>set xs. isspace x" "\<forall>x\<in>set ys. isspace x"
    using str_strip_decomp by blast
  have "str_replace c [] s = str_replace c [] xs @ str_replace c [] (str_strip s) @ str_replace c [] ys"
    using d(1) str_replace_append by metis
  then show ?thesis
    using map_strip_split_pad[OF isspace_delete[OF d(2)] isspace_delete[OF d(3)]] by simp
qed

section \<open>Facts about floats\<close>

lemma pow2_powi: "pow2 e = 2 powi e"
  by (simp add: pow2_def power_int_def inverse_eq_divide power_one_over)

lemma pow2_pos: "0 < pow2 e"
  by (simp add: pow2_powi zero_less_power_int)

lemma pow2_add: "pow2 (a + b) = pow2 a * pow2 b"
  by (simp add: pow2_powi power_int_add)

lemma pow2_mono: "a \<le> b \<Longrightarrow> pow2 a \<le> pow2 b"
  by (simp add: pow2_powi power_int_increasing)

lemma pow2_nat: "0 \<le> e \<Longrightarrow> pow2 e = of_int (2 ^ nat e)"
  by (simp add: pow2_def)

lemma pow2_neg_inverse: "e \<le> 0 \<Longrightarrow> 1 / pow2 e = of_int (2 ^ nat (- e))"
  by (cases "e = 0") (simp_all add: pow2_def)

lemma bit_length_nonneg: "0 \<le> bit_length n"
  by (induction n rule: bit_length.induct) (simp add: bit_length.simps)

lemma bit_length_pos: "0 < n \<Longrightarrow> 1 \<le> bit_length n"
  using bit_length_nonneg [of "n div 2"] by (subst bit_length.simps) simp

lemma bit_length_upper: "0 \<le> n \<Longrightarrow> n < 2 ^ nat (bit_length n)"
proof (induction n rule: bit_length.induct)
  case (1 n)
  show ?case
  proof (cases "n \<le> 0")
    case True
    with 1 show ?thesis by (simp add: bit_length.simps)
  next
    case False
    then have "n div 2 < 2 ^ nat (bit_length (n div 2))"
      using 1 by simp
    moreover have "nat (1 + bit_length (n div 2)) = Suc (nat (bit_length (n div 2)))"
      using bit_length_nonneg [of "n div 2"] by simp
    ultimately show ?thesis
      using False by (subst bit_length.simps) simp
  qed
qed

lemma bit_length_lower: "0 < n \<Longrightarrow> 2 ^ nat (bit_length n - 1) \<le> n"
proof (induction n rule: bit_length.induct)
  case (1 n)
  show ?case
  proof (cases "n div 2 = 0")
    case True
    with 1 have "n = 1" by presburger
    then show ?thesis by (simp add: bit_length.simps)
  next
    case False
    with 1 have p: "0 < n div 2" by simp
    then have ih: "2 ^ nat (bit_length (n div 2) - 1) \<le> n div 2"
      using 1 by simp
    have "nat (1 + bit_length (n div 2) - 1) = Suc (nat (bit_length (n div 2) - 1))"
      using bit_length_pos [OF p] by simp
    then show ?thesis
      using ih 1 by (subst bit_length.simps) simp
  qed
qed


lemma floor_log2_lower:
  assumes "0 < a"
  shows "pow2 (floor_log2 a) \<le> a"
proof (cases "1 \<le> a")
  case True
  then have n: "0 < \<lfloor>a\<rfloor>" by simp
  have "pow2 (floor_log2 a) = of_int (2 ^ nat (bit_length \<lfloor>a\<rfloor> - 1))"
    using True bit_length_pos [OF n] by (simp add: floor_log2_def pow2_def)
  also have "\<dots> \<le> of_int \<lfloor>a\<rfloor>"
    using bit_length_lower [OF n] by (simp only: of_int_le_iff)
  also have "\<dots> \<le> a" by simp
  finally show ?thesis .
next
  case False
  let ?m = "\<lceil>1 / a\<rceil>"
  let ?k = "bit_length (?m - 1)"
  from False assms have "1 < 1 / a" by simp
  then have m: "0 < ?m - 1" by (simp add: less_ceiling_iff)
  have k: "1 \<le> ?k" using bit_length_pos [OF m] .
  from m have "0 \<le> ?m - 1" by linarith
  then have "?m - 1 < 2 ^ nat ?k" by (rule bit_length_upper)
  then have mk: "?m \<le> 2 ^ nat ?k" by linarith
  have "1 / a \<le> of_int ?m" by simp
  also have "\<dots> \<le> of_int (2 ^ nat ?k)"
    using mk by (simp only: of_int_le_iff)
  finally have "1 / a \<le> of_int (2 ^ nat ?k)" .
  then have "1 / of_int (2 ^ nat ?k) \<le> a"
    using assms by (simp add: field_simps)
  moreover have "pow2 (floor_log2 a) = 1 / of_int (2 ^ nat ?k)"
    using False k by (simp add: floor_log2_def pow2_def)
  ultimately show ?thesis by simp
qed

lemma round_half_even_ge: "of_int k \<le> y \<Longrightarrow> k \<le> round_half_even y"
proof -
  assume "of_int k \<le> y"
  then have "k \<le> \<lfloor>y\<rfloor>" by (simp add: le_floor_iff)
  moreover have "\<lfloor>y\<rfloor> \<le> round_half_even y"
    by (simp add: round_half_even_def Let_def)
  ultimately show ?thesis by simp
qed

lemma round_half_even_of_int: "round_half_even (of_int k) = k"
  by (simp add: round_half_even_def Let_def)

lemma round_half_even_le: "y \<le> of_int k \<Longrightarrow> round_half_even y \<le> k"
proof (cases "y = of_int k")
  case True
  then show ?thesis by (simp add: round_half_even_of_int)
next
  case False
  assume "y \<le> of_int k"
  with False have "y < of_int k" by simp
  then have "\<lfloor>y\<rfloor> < k" by (simp add: floor_less_iff)
  moreover have "round_half_even y \<le> \<lfloor>y\<rfloor> + 1"
    by (simp add: round_half_even_def Let_def)
  ultimately show ?thesis by simp
qed

lemma round_half_even_nonneg: "0 \<le> y \<Longrightarrow> 0 \<le> round_half_even y"
  using round_half_even_ge [of 0 y] by simp


lemma round_double_alt:
  "round_double x =
     (if x = 0 then Finite 0
      else if pow2 1024 \<le> round_magnitude \<bar>x\<bar> then (if 0 < x then PosInf else NegInf)
      else Finite (sgn x * round_magnitude \<bar>x\<bar>))"
  by (simp add: round_double_def Let_def round_magnitude_def ulp_exponent_def)

lemma round_magnitude_nonneg: "0 \<le> a \<Longrightarrow> 0 \<le> round_magnitude a"
  using pow2_pos [of "ulp_exponent a"] round_half_even_nonneg [of "a / pow2 (ulp_exponent a)"]
  by (simp add: round_magnitude_def)

lemma scaled_int:
  assumes "e \<le> 0"
  shows "of_int n / pow2 e = of_int (n * 2 ^ nat (- e))"
proof -
  have "of_int n / pow2 e = of_int n * (1 / pow2 e)" by simp
  also have "\<dots> = of_int n * of_int (2 ^ nat (- e))"
    by (simp only: pow2_neg_inverse [OF assms])
  also have "\<dots> = of_int (n * 2 ^ nat (- e))" by simp
  finally show ?thesis .
qed

lemma unscaled_int:
  assumes "e \<le> 0"
  shows "of_int (n * 2 ^ nat (- e)) * pow2 e = of_int n"
proof -
  have "of_int (n * 2 ^ nat (- e)) * pow2 e = (of_int n / pow2 e) * pow2 e"
    by (simp only: scaled_int [OF assms])
  also have "\<dots> = of_int n"
    using pow2_pos [of e] by simp
  finally show ?thesis .
qed

lemma pow2_le_imp_le:
  assumes "pow2 m \<le> pow2 n" "0 \<le> n"
  shows "m \<le> n"
  using power_int_le_imp_le_exp [of "2::rat" m n] assms unfolding pow2_powi by simp

lemma big_exponent:
  assumes "0 < a" "0 < ulp_exponent a"
  shows "pow2 (ulp_exponent a + 52) \<le> a"
proof -
  from assms(2) have "ulp_exponent a = floor_log2 a - 52"
    by (simp add: ulp_exponent_def max_def split: if_splits)
  then show ?thesis using floor_log2_lower [OF assms(1)] by simp
qed

lemma pow2_52: "pow2 52 = of_int (2 ^ 52)" and pow2_53: "pow2 53 = of_int (2 ^ 53)"
  by (simp_all add: pow2_def)

lemma round_magnitude_ge:
  assumes "0 < a" "of_int n \<le> a" "n \<le> 2 ^ 53"
  shows "of_int n \<le> round_magnitude a"
proof (cases "ulp_exponent a \<le> 0")
  case True
  let ?e = "ulp_exponent a"
  have "of_int n / pow2 ?e \<le> a / pow2 ?e"
    using assms(2) pow2_pos [of ?e] by (simp add: divide_right_mono)
  then have "of_int (n * 2 ^ nat (- ?e)) \<le> a / pow2 ?e"
    by (simp only: scaled_int [OF True])
  then have "n * 2 ^ nat (- ?e) \<le> round_half_even (a / pow2 ?e)"
    by (rule round_half_even_ge)
  then have "of_int (n * 2 ^ nat (- ?e)) * pow2 ?e \<le> round_magnitude a"
    unfolding round_magnitude_def using pow2_pos [of ?e]
    by (simp only: mult_le_cancel_right_pos of_int_le_iff)
  then show ?thesis
    by (simp only: unscaled_int [OF True])
next
  case False
  let ?e = "ulp_exponent a"
  from False have e: "0 < ?e" by simp
  have "pow2 ?e * pow2 52 \<le> a"
    using big_exponent [OF assms(1) e] by (simp add: pow2_add)
  then have "of_int (2 ^ 52) \<le> a / pow2 ?e"
    using pow2_pos [of ?e] by (simp add: pow2_52 field_simps)
  then have "2 ^ 52 \<le> round_half_even (a / pow2 ?e)"
    by (rule round_half_even_ge)
  then have "(of_int (2 ^ 52) :: rat) \<le> of_int (round_half_even (a / pow2 ?e))"
    by (simp only: of_int_le_iff)
  moreover have "2 \<le> pow2 ?e"
    using pow2_mono [of 1 ?e] e by (simp add: pow2_def)
  ultimately have "of_int (2 ^ 52) * 2 \<le> round_magnitude a"
    unfolding round_magnitude_def by (intro mult_mono) simp_all
  moreover have "(of_int n :: rat) \<le> of_int (2 ^ 53)"
    using assms(3) by (simp only: of_int_le_iff)
  ultimately show ?thesis by simp
qed

lemma round_magnitude_le:
  assumes "0 < a" "a \<le> of_int n" "n \<le> 2 ^ 53"
  shows "round_magnitude a \<le> of_int n"
proof (cases "ulp_exponent a \<le> 0")
  case True
  let ?e = "ulp_exponent a"
  have "a / pow2 ?e \<le> of_int n / pow2 ?e"
    using assms(2) pow2_pos [of ?e] by (simp add: divide_right_mono)
  then have "a / pow2 ?e \<le> of_int (n * 2 ^ nat (- ?e))"
    by (simp only: scaled_int [OF True])
  then have "round_half_even (a / pow2 ?e) \<le> n * 2 ^ nat (- ?e)"
    by (rule round_half_even_le)
  then have "round_magnitude a \<le> of_int (n * 2 ^ nat (- ?e)) * pow2 ?e"
    unfolding round_magnitude_def using pow2_pos [of ?e]
    by (simp only: mult_le_cancel_right_pos of_int_le_iff)
  then show ?thesis
    by (simp only: unscaled_int [OF True])
next
  case False
  let ?e = "ulp_exponent a"
  from False have e: "0 < ?e" by simp
  have lower: "pow2 (?e + 52) \<le> a"
    by (rule big_exponent [OF assms(1) e])
  have "(of_int n :: rat) \<le> of_int (2 ^ 53)"
    using assms(3) by (simp only: of_int_le_iff)
  then have upper: "a \<le> pow2 53"
    using assms(2) by (simp add: pow2_53)
  from lower upper have "pow2 (?e + 52) \<le> pow2 53" by simp
  then have "?e + 52 \<le> 53"
    by (rule pow2_le_imp_le) simp
  with e have e1: "?e = 1" by simp
  have "pow2 53 \<le> a" using lower e1 by simp
  with upper have a: "a = pow2 53" by simp
  have "a / pow2 ?e = a / pow2 1" by (simp only: e1)
  also have "\<dots> = pow2 53 / pow2 1" by (simp only: a)
  also have "\<dots> = of_int (2 ^ 52)" by (simp add: pow2_def)
  finally have "a / pow2 ?e = of_int (2 ^ 52)" .
  then have "round_magnitude a = of_int (2 ^ 52) * pow2 1"
    unfolding round_magnitude_def by (simp only: round_half_even_of_int e1)
  also have "\<dots> = a" by (simp add: a pow2_def)
  finally show ?thesis using assms(2) by simp
qed


lemma pow2_53_less_1024: "pow2 53 < pow2 1024"
proof -
  have "pow2 53 < pow2 54" by (simp add: pow2_def)
  also have "\<dots> \<le> pow2 1024" by (rule pow2_mono) simp
  finally show ?thesis .
qed

lemma round_double_pos:
  assumes "0 < a" "a \<le> of_int n" "n \<le> 2 ^ 53"
  shows "round_double a = Finite (round_magnitude a)"
proof -
  have "round_magnitude a \<le> of_int n"
    by (rule round_magnitude_le [OF assms])
  also have "(of_int n :: rat) \<le> of_int (2 ^ 53)"
    using assms(3) by (simp only: of_int_le_iff)
  also have "\<dots> = pow2 53" by (simp add: pow2_def)
  finally have "round_magnitude a < pow2 1024"
    using pow2_53_less_1024 by simp
  then show ?thesis
    using assms(1) by (simp add: round_double_alt)
qed

lemma round_double_neg:
  assumes "0 < a" "a \<le> of_int n" "n \<le> 2 ^ 53"
  shows "round_double (- a) = Finite (- round_magnitude a)"
proof -
  have "round_magnitude a \<le> of_int n"
    by (rule round_magnitude_le [OF assms])
  also have "(of_int n :: rat) \<le> of_int (2 ^ 53)"
    using assms(3) by (simp only: of_int_le_iff)
  also have "\<dots> = pow2 53" by (simp add: pow2_def)
  finally have "round_magnitude a < pow2 1024"
    using pow2_53_less_1024 by simp
  then show ?thesis
    using assms(1) by (simp add: round_double_alt)
qed

lemma int_to_float_exact:
  assumes "0 < l" "l \<le> 2 ^ 53"
  shows "int_to_float l = Inr (Finite (of_int l))"
proof -
  have p: "(0::rat) < of_int l" using assms(1) by simp
  have "round_magnitude (of_int l) \<le> of_int l"
    by (rule round_magnitude_le [OF p _ assms(2)]) simp
  moreover have "of_int l \<le> round_magnitude (of_int l)"
    by (rule round_magnitude_ge [OF p _ assms(2)]) simp
  ultimately have "round_magnitude (of_int l) = of_int l" by simp
  then show ?thesis
    using round_double_pos [OF p _ assms(2)] by (simp add: int_to_float_def)
qed



lemma round_double_sign:
  assumes "round_double x = Finite r"
  shows "(0 \<le> x \<longrightarrow> 0 \<le> r) \<and> (x \<le> 0 \<longrightarrow> r \<le> 0)"
proof -
  have m: "0 \<le> round_magnitude \<bar>x\<bar>"
    by (rule round_magnitude_nonneg) simp
  from assms have "r = 0 \<or> r = sgn x * round_magnitude \<bar>x\<bar>"
    by (auto simp: round_double_alt split: if_splits)
  then show ?thesis
    using m by (auto simp: sgn_if mult_le_0_iff zero_le_mult_iff split: if_splits)
qed

lemma num_clips_nonpositive:
  assumes "D \<le> 0" "0 < l" "num_clips (Finite D) l = Inr n"
  shows "n \<le> 0"
proof -
  from assms(3) obtain y where y: "int_to_float l = Inr y"
    by (auto simp: num_clips_def float_truediv_def split: sum.splits)
  from y obtain b where b: "y = Finite b" "round_double (of_int l) = Finite b"
    by (cases "round_double (of_int l)") (auto simp: int_to_float_def)
  have b0: "0 \<le> b"
    using round_double_sign [OF b(2)] assms(2) by simp
  from assms(3) y b obtain r where r: "b \<noteq> 0" "round_double (D / b) = Finite r" "n = \<lceil>r\<rceil>"
    by (auto simp: num_clips_def float_truediv_def split: sum.splits if_splits pyfloat.splits
        elim: math_ceil.elims)
  have "D / b \<le> 0"
    using assms(1) b0 by (simp add: divide_nonpos_nonneg)
  then have "r \<le> 0"
    using round_double_sign [OF r(2)] by simp
  then show ?thesis
    using r(3) by (simp add: ceiling_le_iff)
qed

lemma num_clips_zero:
  assumes "0 < l" "l \<le> 2 ^ 53"
  shows "num_clips (Finite 0) l = Inr 0"
  using assms by (simp add: num_clips_def float_truediv_def int_to_float_exact round_double_def)

text \<open>
  How far rounding moves a quotient.  A double below \<open>2^53\<close> in magnitude is
  \<open>m / 2^k\<close> with \<open>|m| < 2^53\<close>; its quotient \<open>a\<close> by an integer \<open>l\<close> is a fraction with
  denominator \<open>2^k * l\<close>, so it lies at least \<open>1 / (2^k * l)\<close> from every integer it
  is not equal to, which is more than \<open>a / 2^53\<close>; and rounding a quotient in the
  normal range moves it by at most \<open>a / 2^53\<close>.  So rounding never carries such a
  quotient onto or across an integer.
\<close>

lemma round_half_even_lower: "y - 1 / 2 \<le> of_int (round_half_even y)"
proof -
  have "of_int \<lfloor>y\<rfloor> \<le> y" "y < of_int \<lfloor>y\<rfloor> + 1" by linarith+
  then show ?thesis
    by (auto simp: round_half_even_def Let_def)
qed

lemma round_half_even_upper: "of_int (round_half_even y) \<le> y + 1 / 2"
proof -
  let ?f = "\<lfloor>y\<rfloor>"
  have le: "of_int ?f \<le> y" by linarith
  consider "y - of_int ?f < 1 / 2" | "1 / 2 < y - of_int ?f" | "y - of_int ?f = 1 / 2"
    by linarith
  then show ?thesis
  proof cases
    case 1
    then have "round_half_even y = ?f" by (simp add: round_half_even_def Let_def)
    with le show ?thesis by linarith
  next
    case 2
    then have "round_half_even y = ?f + 1" by (simp add: round_half_even_def Let_def)
    with 2 show ?thesis by simp
  next
    case 3
    then have "round_half_even y = ?f \<or> round_half_even y = ?f + 1"
      by (simp add: round_half_even_def Let_def)
    with 3 le show ?thesis by auto
  qed
qed

lemma normal_ulp:
  assumes "0 < a" "pow2 (- 1022) \<le> a"
  shows "pow2 (ulp_exponent a) * 2 ^ 52 \<le> a"
proof (cases "- 1074 \<le> floor_log2 a - 52")
  case True
  then have "ulp_exponent a + 52 = floor_log2 a"
    by (simp add: ulp_exponent_def)
  then have "pow2 (ulp_exponent a + 52) \<le> a"
    using floor_log2_lower [OF assms(1)] by simp
  then show ?thesis
    by (simp add: pow2_add pow2_52)
next
  case False
  then have e: "ulp_exponent a = - 1074"
    by (simp add: ulp_exponent_def)
  have "pow2 (ulp_exponent a + 52) = pow2 (- 1022)"
    unfolding e by simp
  with assms(2) have "pow2 (ulp_exponent a + 52) \<le> a"
    by (simp only:)
  then show ?thesis
    by (simp add: pow2_add pow2_52)
qed

lemma round_magnitude_near:
  assumes "0 < a" "pow2 (- 1022) \<le> a"
  shows "a - a / 2 ^ 53 \<le> round_magnitude a" "round_magnitude a \<le> a + a / 2 ^ 53"
proof -
  let ?p = "pow2 (ulp_exponent a)"
  have p: "0 < ?p" by (rule pow2_pos)
  have u: "?p / 2 \<le> a / 2 ^ 53"
    using normal_ulp [OF assms] by simp
  have "(a / ?p - 1 / 2) * ?p \<le> round_magnitude a"
    unfolding round_magnitude_def using p round_half_even_lower [of "a / ?p"]
    by (simp only: mult_le_cancel_right_pos)
  moreover have "(a / ?p - 1 / 2) * ?p = a - ?p / 2"
    using p by (simp add: field_simps)
  ultimately show "a - a / 2 ^ 53 \<le> round_magnitude a"
    using u by linarith
  have "round_magnitude a \<le> (a / ?p + 1 / 2) * ?p"
    unfolding round_magnitude_def using p round_half_even_upper [of "a / ?p"]
    by (simp only: mult_le_cancel_right_pos)
  moreover have "(a / ?p + 1 / 2) * ?p = a + ?p / 2"
    using p by (simp add: field_simps)
  ultimately show "round_magnitude a \<le> a + a / 2 ^ 53"
    using u by linarith
qed

lemma dyadic_gap:
  fixes a :: rat
  assumes "0 < l" "a = of_int m / (2 ^ k * of_int l)" "m < 2 ^ 53" "a \<noteq> of_int M"
  shows "a / 2 ^ 53 < \<bar>a - of_int M\<bar>"
proof -
  define d where "d = 2 ^ k * l"
  have d: "0 < d" using assms(1) by (simp add: d_def)
  have dr: "(0::rat) < of_int d" using d by (simp only: of_int_0_less_iff)
  have a: "a = of_int m / of_int d"
    using assms(2) by (simp add: d_def)
  have "of_int (m - M * d) / (of_int d :: rat) = of_int m / of_int d - of_int M * of_int d / of_int d"
    by (simp only: of_int_diff of_int_mult diff_divide_distrib)
  also have "\<dots> = a - of_int M"
    unfolding a using dr by simp
  finally have e: "a - of_int M = of_int (m - M * d) / of_int d" by simp
  have "m - M * d \<noteq> 0"
  proof
    assume "m - M * d = 0"
    then have "a - of_int M = 0" unfolding e by simp
    with assms(4) show False by simp
  qed
  then have "1 \<le> \<bar>m - M * d\<bar>" by linarith
  then have "(1::rat) \<le> of_int \<bar>m - M * d\<bar>"
    by (simp only: of_int_1_le_iff)
  then have "(1::rat) \<le> \<bar>of_int (m - M * d)\<bar>"
    by (simp only: of_int_abs)
  then have "1 / of_int d \<le> \<bar>of_int (m - M * d)\<bar> / (of_int d :: rat)"
    using dr by (simp only: divide_le_cancel) simp
  also have "\<dots> = \<bar>a - of_int M\<bar>"
    unfolding e using dr by (simp add: abs_divide)
  finally have g: "1 / of_int d \<le> \<bar>a - of_int M\<bar>" .
  have "(of_int m :: rat) < 2 ^ 53"
    using assms(3) by (simp only: of_int_less_numeral_power_cancel_iff)
  then have "of_int m / (2 ^ 53 :: rat) < 1" by simp
  then have "of_int m / 2 ^ 53 / (of_int d :: rat) < 1 / of_int d"
    using dr by (simp only: divide_strict_right_mono)
  moreover have "a / 2 ^ 53 = of_int m / 2 ^ 53 / of_int d"
    unfolding a by simp
  ultimately show ?thesis using g by linarith
qed

lemma dyadic_quotient_bounds:
  fixes a :: rat
  assumes "0 < l" "0 < m" "m < 2 ^ 53" "a = of_int m / (2 ^ k * of_int l)"
  shows "0 < a" "a \<le> of_int m" "a < 2 ^ 53"
proof -
  have l: "(1::rat) \<le> of_int l" using assms(1) by simp
  have m: "(0::rat) < of_int m" using assms(2) by simp
  have k: "(1::rat) \<le> 2 ^ k" by simp
  have "(1::rat) * 1 \<le> 2 ^ k * of_int l"
    using k l by (intro mult_mono) simp_all
  then have d: "(1::rat) \<le> 2 ^ k * of_int l" by simp
  then have dp: "(0::rat) < 2 ^ k * of_int l" by linarith
  show "0 < a" unfolding assms(4) using m dp by (rule divide_pos_pos)
  have "of_int m / (2 ^ k * of_int l) \<le> of_int m / (1::rat)"
    using m d by (intro divide_left_mono) simp_all
  then show le: "a \<le> of_int m" unfolding assms(4) by simp
  have "(of_int m :: rat) < 2 ^ 53"
    using assms(3) by (simp only: of_int_less_numeral_power_cancel_iff)
  with le show "a < 2 ^ 53" by linarith
qed

lemma round_magnitude_ceiling:
  assumes "0 < l" "0 < m" "m < 2 ^ 53" "a = of_int m / (2 ^ k * of_int l)" "pow2 (- 1022) \<le> a"
  shows "\<lceil>round_magnitude a\<rceil> = \<lceil>a\<rceil>"
proof -
  note b = dyadic_quotient_bounds [OF assms(1-4)]
  let ?N = "\<lceil>a\<rceil>"
  have N: "?N \<le> 2 ^ 53"
    using b(3) by (simp add: ceiling_le_iff)
  have "round_magnitude a \<le> of_int ?N"
    by (rule round_magnitude_le [OF b(1) _ N]) simp
  then have up: "\<lceil>round_magnitude a\<rceil> \<le> ?N"
    by (simp add: ceiling_le_iff)
  have lt: "of_int (?N - 1) < a"
    using ceiling_correct [of a] by simp
  then have "a \<noteq> of_int (?N - 1)" by simp
  from dyadic_gap [OF assms(1) assms(4) assms(3) this]
  have "a / 2 ^ 53 < a - of_int (?N - 1)"
    using lt by simp
  with round_magnitude_near(1) [OF b(1) assms(5)]
  have "of_int (?N - 1) < round_magnitude a" by linarith
  then have "?N - 1 < \<lceil>round_magnitude a\<rceil>"
    by (simp only: less_ceiling_iff)
  with up show ?thesis by linarith
qed

lemma round_magnitude_floor:
  assumes "0 < l" "0 < m" "m < 2 ^ 53" "a = of_int m / (2 ^ k * of_int l)" "pow2 (- 1022) \<le> a"
  shows "\<lfloor>round_magnitude a\<rfloor> = \<lfloor>a\<rfloor>"
proof -
  note b = dyadic_quotient_bounds [OF assms(1-4)]
  let ?N = "\<lfloor>a\<rfloor>"
  have "of_int ?N \<le> a" by simp
  also have "a < 2 ^ 53" by (rule b(3))
  finally have "?N < 2 ^ 53" by (simp only: of_int_less_numeral_power_cancel_iff)
  then have N: "?N \<le> 2 ^ 53" by simp
  have "of_int ?N \<le> round_magnitude a"
    by (rule round_magnitude_ge [OF b(1) _ N]) simp
  then have lo: "?N \<le> \<lfloor>round_magnitude a\<rfloor>"
    by (simp add: le_floor_iff)
  have lt: "a < of_int (?N + 1)"
    using floor_correct [of a] by simp
  then have "a \<noteq> of_int (?N + 1)" by simp
  from dyadic_gap [OF assms(1) assms(4) assms(3) this]
  have "a / 2 ^ 53 < of_int (?N + 1) - a"
    using lt by simp
  with round_magnitude_near(2) [OF b(1) assms(5)]
  have "round_magnitude a < of_int (?N + 1)" by linarith
  then have "\<lfloor>round_magnitude a\<rfloor> < ?N + 1"
    by (simp only: floor_less_iff)
  with lo show ?thesis by linarith
qed

lemma num_clips_exact_pos:
  assumes "0 < l" "l \<le> 2 ^ 53" "0 < m" "m < 2 ^ 53" "D = of_int m / 2 ^ k"
    "pow2 (- 1022) \<le> D / of_int l"
  shows "num_clips (Finite D) l = Inr \<lceil>D / of_int l\<rceil>"
proof -
  let ?a = "D / of_int l"
  have a: "?a = of_int m / (2 ^ k * of_int l)"
    unfolding assms(5) by simp
  note b = dyadic_quotient_bounds [OF assms(1,3,4) a]
  have n: "of_int l \<noteq> (0::rat)" using assms(1) by simp
  have "?a \<le> of_int (2 ^ 53)" using b(3) by simp
  then have "round_double ?a = Finite (round_magnitude ?a)"
    by (rule round_double_pos [OF b(1)]) simp
  then show ?thesis
    using n round_magnitude_ceiling [OF assms(1,3,4) a assms(6)]
    by (simp add: num_clips_def float_truediv_def int_to_float_exact [OF assms(1,2)])
qed

lemma num_clips_exact_neg:
  assumes "0 < l" "l \<le> 2 ^ 53" "0 < m" "m < 2 ^ 53" "D = - (of_int m / 2 ^ k)"
    "pow2 (- 1022) \<le> - (D / of_int l)"
  shows "num_clips (Finite D) l = Inr \<lceil>D / of_int l\<rceil>"
proof -
  let ?a = "- (D / of_int l)"
  have a: "?a = of_int m / (2 ^ k * of_int l)"
    unfolding assms(5) by simp
  note b = dyadic_quotient_bounds [OF assms(1,3,4) a]
  have n: "of_int l \<noteq> (0::rat)" using assms(1) by simp
  have "?a \<le> of_int (2 ^ 53)" using b(3) by simp
  then have "round_double (- ?a) = Finite (- round_magnitude ?a)"
    by (rule round_double_neg [OF b(1)]) simp
  then have r: "round_double (D / of_int l) = Finite (- round_magnitude ?a)"
    by simp
  have "\<lceil>- round_magnitude ?a\<rceil> = - \<lfloor>round_magnitude ?a\<rfloor>"
    by (simp add: ceiling_def)
  also have "\<dots> = - \<lfloor>?a\<rfloor>"
    by (simp only: round_magnitude_floor [OF assms(1,3,4) a assms(6)])
  also have "\<dots> = \<lceil>D / of_int l\<rceil>"
    by (simp add: ceiling_def)
  finally show ?thesis
    using n r
    by (simp add: num_clips_def float_truediv_def int_to_float_exact [OF assms(1,2)])
qed

lemma floor_log2_upper:
  assumes "0 < a"
  shows "a < pow2 (floor_log2 a + 1)"
proof (cases "1 \<le> a")
  case True
  let ?n = "\<lfloor>a\<rfloor>"
  have n: "0 < ?n" using True by simp
  have fl: "floor_log2 a + 1 = bit_length ?n"
    using True by (simp add: floor_log2_def)
  have "?n < 2 ^ nat (bit_length ?n)"
    using n by (intro bit_length_upper) simp
  then have "?n + 1 \<le> 2 ^ nat (bit_length ?n)" by simp
  then have "(of_int (?n + 1) :: rat) \<le> of_int (2 ^ nat (bit_length ?n))"
    by (simp only: of_int_le_iff)
  moreover have "a < of_int (?n + 1)"
    using floor_correct [of a] by simp
  ultimately have "a < of_int (2 ^ nat (bit_length ?n))" by linarith
  then show ?thesis
    unfolding fl by (simp only: pow2_nat [OF bit_length_nonneg])
next
  case False
  let ?c = "\<lceil>1 / a\<rceil> - 1"
  have "1 < 1 / a" using assms False by simp
  then have "1 < \<lceil>1 / a\<rceil>" by (simp only: less_ceiling_iff of_int_1)
  then have c: "0 < ?c" by simp
  have fl: "floor_log2 a + 1 = 1 - bit_length ?c"
    using False by (simp add: floor_log2_def)
  have e: "1 - bit_length ?c \<le> 0"
    using bit_length_pos [OF c] by simp
  have "2 ^ nat (bit_length ?c - 1) \<le> ?c"
    by (rule bit_length_lower [OF c])
  then have "(of_int (2 ^ nat (bit_length ?c - 1)) :: rat) \<le> of_int ?c"
    by (simp only: of_int_le_iff)
  moreover have "of_int ?c < 1 / a"
    using ceiling_correct [of "1 / a"] by simp
  moreover have "1 / pow2 (1 - bit_length ?c) = of_int (2 ^ nat (bit_length ?c - 1))"
    using pow2_neg_inverse [OF e] by simp
  ultimately have "1 / pow2 (1 - bit_length ?c) < 1 / a" by linarith
  then have "a < pow2 (1 - bit_length ?c)"
    using assms pow2_pos [of "1 - bit_length ?c"] by (simp add: field_simps)
  then show ?thesis
    unfolding fl .
qed

lemma scaled_below:
  assumes "0 < a"
  shows "a / pow2 (ulp_exponent a) < 2 ^ 53"
proof -
  have "floor_log2 a + 1 \<le> ulp_exponent a + 53"
    by (simp add: ulp_exponent_def)
  then have "pow2 (floor_log2 a + 1) \<le> pow2 (ulp_exponent a + 53)"
    by (rule pow2_mono)
  with floor_log2_upper [OF assms] have "a < pow2 (ulp_exponent a) * 2 ^ 53"
    by (simp add: pow2_add pow2_53)
  then show ?thesis
    using pow2_pos [of "ulp_exponent a"] by (simp add: field_simps)
qed

lemma round_magnitude_dyadic:
  assumes "0 < a" "round_magnitude a < 2 ^ 53"
  shows "\<exists>m k. round_magnitude a = of_int m / 2 ^ k \<and> 0 \<le> m \<and> m < 2 ^ 53"
proof -
  let ?e = "ulp_exponent a"
  let ?n = "round_half_even (a / pow2 ?e)"
  have r: "round_magnitude a = of_int ?n * pow2 ?e"
    by (simp add: round_magnitude_def)
  have "0 \<le> a / pow2 ?e" using assms(1) pow2_pos [of ?e] by simp
  then have n0: "0 \<le> ?n" by (rule round_half_even_nonneg)
  have "a / pow2 ?e \<le> of_int (2 ^ 53)"
    using scaled_below [OF assms(1)] by simp
  then have n53: "?n \<le> 2 ^ 53" by (rule round_half_even_le)
  show ?thesis
  proof (cases "0 \<le> ?e")
    case True
    have i: "round_magnitude a = of_int (?n * 2 ^ nat ?e)"
      unfolding r by (simp only: pow2_nat [OF True] of_int_mult)
    with assms(2) have "(of_int (?n * 2 ^ nat ?e) :: rat) < 2 ^ 53" by simp
    then have "?n * 2 ^ nat ?e < 2 ^ 53"
      by (simp only: of_int_less_numeral_power_cancel_iff)
    moreover have "0 \<le> ?n * 2 ^ nat ?e" using n0 by simp
    moreover have "round_magnitude a = of_int (?n * 2 ^ nat ?e) / 2 ^ 0"
      using i by simp
    ultimately show ?thesis by blast
  next
    case False
    then have e: "?e \<le> 0" and k: "0 < nat (- ?e)" by simp_all
    have p: "pow2 ?e = 1 / 2 ^ nat (- ?e)"
      using False by (simp add: pow2_def)
    show ?thesis
    proof (cases "?n = 2 ^ 53")
      case True
      obtain j where j: "nat (- ?e) = Suc j"
        using k by (cases "nat (- ?e)") simp_all
      have "round_magnitude a = of_int (2 ^ 53) * pow2 ?e"
        using r by (simp only: True)
      also have "\<dots> = of_int (2 ^ 53) * (1 / 2 ^ Suc j)"
        by (simp only: p j)
      also have "\<dots> = of_int (2 ^ 52) / 2 ^ j"
        by simp
      finally have "round_magnitude a = of_int (2 ^ 52) / 2 ^ j" .
      moreover have "(0::int) \<le> 2 ^ 52" "(2::int) ^ 52 < 2 ^ 53" by simp_all
      ultimately show ?thesis by blast
    next
      case False
      with n53 have "?n < 2 ^ 53" by simp
      moreover have "round_magnitude a = of_int ?n / 2 ^ nat (- ?e)"
        unfolding r p by simp
      ultimately show ?thesis using n0 by blast
    qed
  qed
qed

lemma round_double_dyadic:
  assumes "round_double x = Finite D" "\<bar>D\<bar> < 2 ^ 53"
  shows "\<exists>m k. D = of_int m / 2 ^ k \<and> \<bar>m\<bar> < 2 ^ 53"
proof -
  consider "x = 0" | "0 < x" | "x < 0" by linarith
  then show ?thesis
  proof cases
    case 1
    with assms(1) have "D = of_int 0 / 2 ^ 0" by (simp add: round_double_def)
    moreover have "\<bar>0::int\<bar> < 2 ^ 53" by simp
    ultimately show ?thesis by blast
  next
    case 2
    with assms(1) have D: "D = round_magnitude x"
      by (simp add: round_double_alt split: if_splits)
    have "0 \<le> round_magnitude x" using 2 by (intro round_magnitude_nonneg) simp
    with assms(2) have "round_magnitude x < 2 ^ 53" unfolding D by simp
    from round_magnitude_dyadic [OF 2 this] obtain m k where
      "round_magnitude x = of_int m / 2 ^ k" "0 \<le> m" "m < 2 ^ 53" by blast
    then have "D = of_int m / 2 ^ k \<and> \<bar>m\<bar> < 2 ^ 53" using D by simp
    then show ?thesis by blast
  next
    case 3
    then have p: "0 < - x" by simp
    from 3 assms(1) have D: "D = - round_magnitude (- x)"
      by (simp add: round_double_alt split: if_splits)
    have "0 \<le> round_magnitude (- x)" using p by (intro round_magnitude_nonneg) simp
    with assms(2) have "round_magnitude (- x) < 2 ^ 53" unfolding D by simp
    from round_magnitude_dyadic [OF p this] obtain m k where
      "round_magnitude (- x) = of_int m / 2 ^ k" "0 \<le> m" "m < 2 ^ 53" by blast
    then have "D = of_int (- m) / 2 ^ k \<and> \<bar>- m\<bar> < 2 ^ 53" using D by simp
    then show ?thesis by blast
  qed
qed

lemma py_float_rounded:
  assumes "py_float s = Inr (Finite D)"
  shows "\<exists>x. round_double x = Finite D"
  using assms
  by (auto simp: py_float_def parse_float_literal_def parse_inf_or_nan_def Let_def
      split: option.splits prod.splits if_splits)

section \<open>Facts about the segmenter\<close>

lemma trace_emit [simp]: "trace (emit ev w) = trace w @ [ev]" "fs (emit ev w) = fs w"
  by (simp_all add: emit_def)

lemma trace_py_print [simp]: "trace (py_print m w) = trace w @ [Print m]" "fs (py_print m w) = fs w"
  by (simp_all add: py_print_def)

lemma trace_makedirs [simp]: "trace (makedirs p w) = trace w @ [MakeDirs p]" "fs (makedirs p w) = p # fs w"
  by (simp_all add: makedirs_def)


lemma fs_make_clip: "fs (make_clip en v d l f i w) = fs w"
  by (simp add: make_clip_def subprocess_run_def Let_def)


lemma fs_fold_make_clip: "fs (fold (make_clip en v d l f) ks w) = fs w"
  by (induction ks arbitrary: w) (simp_all add: fs_make_clip)


lemma not_transcode_probe: "\<not> is_transcode (Run (ffprobe_command v))"
  by (simp add: ffprobe_command_def)

lemma transcoder_calls_probed: "transcoder_calls (probed en v d w) = transcoder_calls w"
  by (simp add: probed_def transcoder_calls_def ffprobe_command_def)

lemma path_exists_probed: "path_exists (probed en v d w) d"
  by (simp add: probed_def path_exists_def)

lemma video_to_gifs_unparsed:
  assumes "py_float (str_strip (run_stdout en (ffprobe_command v))) = Inl ValueError"
  shows "video_to_gifs en v d l f w = (None, py_print DurationError (probed en v d w))"
  using assms by (simp add: video_to_gifs_def probed_def subprocess_run_def Let_def)

lemma video_to_gifs_parsed:
  assumes "py_float (str_strip (run_stdout en (ffprobe_command v))) = Inr D"
  shows "video_to_gifs en v d l f w =
     (case num_clips D l of
        Inl err \<Rightarrow> (Some err, py_print (VideoLength D) (probed en v d w))
      | Inr n \<Rightarrow> (None, fold (make_clip en v d l f) (py_range n)
           (py_print (CreatingClips n l) (py_print (VideoLength D) (probed en v d w)))))"
  using assms by (auto simp: video_to_gifs_def probed_def subprocess_run_def Let_def split: sum.splits)

lemma py_float_error: "py_float s = Inl e \<Longrightarrow> e = ValueError"
  by (auto simp: py_float_def Let_def split: option.splits)


lemma py_range_nonpositive: "n \<le> 0 \<Longrightarrow> py_range n = []"
  by (simp add: py_range_def)

section \<open>Facts about the uploader\<close>

lemma update_status_ok:
  "fail_at en (length (trace w)) = None \<Longrightarrow> update_status en m w = (None, emit (Status m None) w)"
  by (simp add: update_status_def)

lemma perform_ok:
  "fail_at en (length (trace w)) = None \<Longrightarrow> perform en a w = (None, emit (Act a None) w)"
  by (simp add: perform_def)

lemma run_steps_ok:
  "\<forall>n. fail_at en n = None \<Longrightarrow> run_steps en ss w = (None, w\<lparr>trace := trace w @ map step_event ss\<rparr>)"
proof (induction ss arbitrary: w)
  case Nil
  then show ?case by simp
next
  case (Cons s ss)
  then show ?case
    by (cases s) (simp_all add: update_status_ok perform_ok emit_def)
qed

lemma fail_at_model_env_None [simp]: "fail_at (model_env answer None) n = None"
  by (simp add: model_env_def)

lemma generate_content_model_env [simp]: "generate_content (model_env answer failure) prompt = answer"
  by (simp add: model_env_def)

lemma paste_unavailable:
  assumes "\<forall>n. fail_at en n = None" "\<not> gemini_available self"
  shows "pasted_tags (snd (generate_and_paste_tags en self topic w)) = pasted_tags w @ default_tags_unavailable"
  using assms
  by (simp add: generate_and_paste_tags_def run_steps_ok pasted_tags_def paste_tags_def
      default_tags_unavailable_def del: run_steps.simps)

lemma paste_on_error:
  assumes "\<forall>n. fail_at en n = None" "gemini_available self" "generate_content en (tag_prompt topic) = Inl e"
  shows "pasted_tags (snd (generate_and_paste_tags en self topic w)) = pasted_tags w @ default_tags_error"
  using assms
  by (simp add: generate_and_paste_tags_def generate_tags_try_def ask_model_def update_status_ok
      py_print_def emit_def Let_def run_steps_ok pasted_tags_def paste_tags_def default_tags_error_def
      del: run_steps.simps)

lemma fail_at_failsafe_at [simp]:
  "fail_at (failsafe_at k) n = (if n = k then Some FailSafeException else None)"
  by (simp add: failsafe_at_def model_env_def)

lemma generate_content_failsafe_at [simp]: "generate_content (failsafe_at k) p = Inr ''#a,#b''"
  by (simp add: failsafe_at_def)

lemma parse_tags_two: "parse_tags ''#a,#b'' = [''#a'', ''#b'']"
  by code_simp

lemmas uploader_defs =
  start_process_def start_process_try_def generate_and_paste_tags_def generate_tags_try_def
  ask_model_def update_status_def perform_def py_print_def emit_def Let_def
  steps_before_tags_def steps_after_tags_def click_at_position_def paste_tags_def
  default_tags_error_def default_tags_unavailable_def some_uploader_def empty_world_def

section \<open>Facts about the main flow\<close>

lemma download_video_from_url_effects:
  "\<exists>msg. trace (snd (download_video_from_url en url w)) =
       trace w @ (if path_exists w download_dir then [] else [MakeDirs download_dir])
         @ [Print (Attempting url), Print msg]
   \<and> fs (snd (download_video_from_url en url w)) =
       ydl_files en url @ (if path_exists w download_dir then fs w else download_dir # fs w)"
  by (auto simp: download_video_from_url_def Let_def split: option.splits)

section \<open>Claims\<close>

text \<open>
  C2.  The claim is that \<open>sanitize_filename\<close> removes every character of
  \<open><>:"/\|?*\<close>, returns at most 100 characters, and strips all leading and trailing
  dots and spaces.  The first two parts hold (\<open>sanitize_filename_no_invalid\<close>,
  \<open>sanitize_filename_length\<close>).  The third does not: whitespace is stripped before
  the dots, so a space that the dots were hiding stays.  On the name \<open>". a"\<close> the
  result is \<open>" a"\<close>, which begins with a space.
\<close>

theorem sanitize_filename_keeps_leading_space:
  "sanitize_filename ''. a'' = '' a''"
  by (simp add: sanitize_filename_def invalid_chars_def str_replace_def str_strip_def
      str_strip_chars_def isspace_def)

text \<open>
  C4.  For every video title, the output directory that the main flow computes and the
  directory that the uploader computes from the same title are the same path; so the
  path that the uploader types into the file dialog, for the title it was built with,
  is the directory the main flow handed to the segmenter.
\<close>

theorem gif_directory_agrees:
  "gif_directory title = final_output_dir title
   \<and> DoAct (WriteText (final_output_dir title))
       \<in> set (steps_before_tags \<lparr>video_title = title, gemini_available = available\<rparr>)"
  by (simp add: gif_directory_def final_output_dir_def steps_before_tags_def)

text \<open>
  C9.  The claim is that the tag list is the response split on commas, each entry
  trimmed, empty entries dropped, with no other transformation.  The code also deletes
  every newline character before it splits, so a newline inside an entry is removed
  rather than kept: the response \<open>"a\nb,c"\<close> gives the tags \<open>ab\<close> and \<open>c\<close>, where
  the parse as worded keeps \<open>a\nb\<close>.
\<close>

theorem parse_tags_deletes_inner_newline:
  "parse_tags (''a'' @ [CHR 0x0A] @ ''b,c'') = [''ab'', ''c''] \<and>
   spec_parse_tags (''a'' @ [CHR 0x0A] @ ''b,c'') = [''a'' @ [CHR 0x0A] @ ''b'', ''c''] \<and>
   parse_tags (''a'' @ [CHR 0x0A] @ ''b,c'') \<noteq> spec_parse_tags (''a'' @ [CHR 0x0A] @ ''b,c'')"
  by (simp add: parse_tags_def spec_parse_tags_def str_strip_def str_replace_def isspace_def)

text \<open>
  C9, amended.  For every response, the tag list is the parse as worded (split on
  commas, trim each entry, drop empty entries) of the response with all its newline
  characters deleted; when that list is empty, the fixed list \<open>default_tags_empty\<close>
  is used in its place.  The strip of the whole response that the code does first
  changes nothing.
\<close>

theorem parse_tags_refines_spec:
  "parse_tags response =
     (let tags = spec_parse_tags (str_replace (CHR 0x0A) [] response)
      in if tags = [] then default_tags_empty else tags)"
proof -
  have e: "[str_strip tag. tag \<leftarrow> xs, str_strip tag \<noteq> []]
             = filter (\<lambda>t. t \<noteq> []) (map str_strip xs)" for xs
    by (induction xs) simp_all
  show ?thesis
    unfolding parse_tags_def spec_parse_tags_def Let_def e map_strip_split_strip ..
qed




text \<open>
  C6.  If \<open>float\<close> raises on the stripped probe output (the output is not a single
  floating-point number, as \<open>abc\<close> is not), the segmenter returns normally, its last
  effect is the error message, and the transcoder has not been invoked.
\<close>

theorem unparsable_duration_aborts:
  assumes "py_float (str_strip (run_stdout en (ffprobe_command v))) = Inl e"
  shows "fst (video_to_gifs en v d l f w) = None
       \<and> transcoder_calls (snd (video_to_gifs en v d l f w)) = transcoder_calls w
       \<and> last (trace (snd (video_to_gifs en v d l f w))) = Print DurationError"
proof -
  from assms have "py_float (str_strip (run_stdout en (ffprobe_command v))) = Inl ValueError"
    using py_float_error by blast
  then have "video_to_gifs en v d l f w = (None, py_print DurationError (probed en v d w))"
    by (rule video_to_gifs_unparsed)
  then show ?thesis
    by (simp add: transcoder_calls_def) (simp add: transcoder_calls_probed [unfolded transcoder_calls_def])
qed

theorem unparsable_duration_aborts_witness:
  "py_float (str_strip (run_stdout (probe_env ''abc'') (ffprobe_command ''v.mp4''))) = Inl ValueError
   \<and> fst (video_to_gifs (probe_env ''abc'') ''v.mp4'' ''out'' 3 15 empty_world) = None
   \<and> transcoder_calls (snd (video_to_gifs (probe_env ''abc'') ''v.mp4'' ''out'' 3 15 empty_world)) = []
   \<and> last (trace (snd (video_to_gifs (probe_env ''abc'') ''v.mp4'' ''out'' 3 15 empty_world)))
       = Print DurationError"
proof -
  have h: "py_float (str_strip (run_stdout (probe_env ''abc'') (ffprobe_command ''v.mp4''))) = Inl ValueError"
    by code_simp
  have t: "transcoder_calls empty_world = []"
    by (simp add: transcoder_calls_def empty_world_def)
  show ?thesis
    using unparsable_duration_aborts [OF h, of "''out''" 3 15 empty_world] h t by simp
qed

text \<open>
  C3.  The claim is that one single fixed six-item default list is emitted both when
  the text model is unavailable and when it raises.  The code holds two lists that
  differ in their third item: without the model it pastes \<open>#funny\<close>, after an
  exception it pastes \<open>#fun\<close>.  Both runs below have no automation call raising.
\<close>

theorem default_tag_lists_differ:
  "pasted_tags (snd (generate_and_paste_tags (model_env quota_error None) (some_uploader False)
       ''My Clip'' empty_world))
     = [''#gif'', ''#animation'', ''#funny'', ''#meme'', ''#trending'', ''#viral'']
   \<and> pasted_tags (snd (generate_and_paste_tags (model_env quota_error None) (some_uploader True)
       ''My Clip'' empty_world))
     = [''#gif'', ''#animation'', ''#fun'', ''#meme'', ''#trending'', ''#viral'']"
proof -
  have e: "pasted_tags empty_world = []"
    by (simp add: pasted_tags_def empty_world_def)
  have 1: "\<not> gemini_available (some_uploader False)" and 2: "gemini_available (some_uploader True)"
    by (simp_all add: some_uploader_def)
  have 3: "generate_content (model_env quota_error None) (tag_prompt ''My Clip'') = Inl (OtherException ''quota exceeded'')"
    by (simp add: quota_error_def)
  show ?thesis
    using paste_unavailable [of "model_env quota_error None", OF _ 1, of "''My Clip''" empty_world]
      paste_on_error [of "model_env quota_error None", OF _ 2 3, of empty_world] e
    by (simp add: default_tags_unavailable_def default_tags_error_def)
qed

text \<open>
  C8.  The claim is that any exception raised during the automation sequence, the
  fail-safe abort included, is caught and reported to the status display, and that no
  remaining upload step executes after the failing step.  \<open>start_process\<close> has a
  handler for the fail-safe abort that does exactly this, and so the abort ends the
  sequence when it is raised while the default tags are pasted without the text model
  (second run below: nothing is carried out after the failing call, and the last
  status is the abort message).  When the same abort is raised by the same paste key
  while generated tags are pasted (first run below), the \<open>except Exception\<close> of
  \<open>generate_and_paste_tags\<close> catches it first: the eighteen calls that paste the
  default tags and the final upload click are all carried out after the failing call,
  the abort is never reported to the status display, and the last status says that
  the upload completed successfully.
\<close>

theorem failsafe_swallowed_while_pasting:
  "fst run_with_model = None
   \<and> trace (snd run_with_model) ! 37 = Act (Hotkey ''ctrl'' ''v'') (Some FailSafeException)
   \<and> acts_after_failure (trace (snd run_with_model))
       = concat (map (\<lambda>tag. [Copy tag, Hotkey ''ctrl'' ''v'', Press ''enter'']) default_tags_error)
         @ [Click 1257 1035]
   \<and> Status ''Process was aborted by moving mouse to corner'' None \<notin> set (trace (snd run_with_model))
   \<and> last (trace (snd run_with_model)) = Status ''Upload process completed successfully!'' None
   \<and> fst run_without_model = None
   \<and> trace (snd run_without_model) ! 35 = Act (Hotkey ''ctrl'' ''v'') (Some FailSafeException)
   \<and> acts_after_failure (trace (snd run_without_model)) = []
   \<and> last (trace (snd run_without_model)) = Status ''Process was aborted by moving mouse to corner'' None"
  by (simp add: run_with_model_def run_without_model_def uploader_defs parse_tags_two)

text \<open>
  C7.  If a URL was typed and the download stage fails (the fetcher returns no file,
  or the path it returns is empty or does not exist on disk), the run ends right after
  the download with the failure message.  Nothing else has happened: the trace holds
  no subprocess call, so the segmenter was not invoked, and the only directory that
  can have been created is the download directory, so the GIF output directory was
  not created by the run.
\<close>

theorem download_failure_stops_run:
  assumes "str_strip (stdin_line en) = url" and "url \<noteq> []"
    and "case download_video_from_url en url w of
           (None, w1) \<Rightarrow> True
         | (Some (p, t), w1) \<Rightarrow> p = [] \<or> \<not> path_exists w1 p"
  shows "fst (main_flow en w) = None
       \<and> (\<exists>msg. trace (snd (main_flow en w)) =
             trace w @ (if path_exists w download_dir then [] else [MakeDirs download_dir])
               @ [Print (Attempting url), Print msg, Print DownloadFailed])
       \<and> fs (snd (main_flow en w)) =
             ydl_files en url @ (if path_exists w download_dir then fs w else download_dir # fs w)"
proof -
  obtain r w1 where d: "download_video_from_url en url w = (r, w1)"
    by (cases "download_video_from_url en url w")
  have m: "main_flow en w = (None, py_print DownloadFailed w1)"
    using assms d by (auto simp: main_flow_def Let_def split: option.splits prod.splits)
  from download_video_from_url_effects [of en url w] d
  obtain msg where
    "trace w1 = trace w @ (if path_exists w download_dir then [] else [MakeDirs download_dir])
         @ [Print (Attempting url), Print msg]"
    "fs w1 = ydl_files en url @ (if path_exists w download_dir then fs w else download_dir # fs w)"
    by auto
  with m show ?thesis by simp
qed

theorem download_failure_stops_run_witness:
  "str_strip (stdin_line (download_env None [])) = ''https://example.com/v''
   \<and> ''https://example.com/v'' \<noteq> []
   \<and> fst (download_video_from_url (download_env None []) ''https://example.com/v'' empty_world) = None
   \<and> fst (main_flow (download_env None []) empty_world) = None
   \<and> trace (snd (main_flow (download_env None []) empty_world)) =
        [MakeDirs download_dir, Print (Attempting ''https://example.com/v''), Print DownloadError,
         Print DownloadFailed]
   \<and> fs (snd (main_flow (download_env None []) empty_world)) = [download_dir]"
proof -
  have 1: "str_strip (stdin_line (download_env None [])) = ''https://example.com/v''"
    by (simp add: download_env_def str_strip_def isspace_def)
  have 2: "''https://example.com/v'' \<noteq> []"
    by simp
  have d: "download_video_from_url (download_env None []) ''https://example.com/v'' empty_world
      = (None, \<lparr>fs = [download_dir],
           trace = [MakeDirs download_dir, Print (Attempting ''https://example.com/v''), Print DownloadError]\<rparr>)"
    by (simp add: download_video_from_url_def download_env_def empty_world_def path_exists_def
        makedirs_def py_print_def emit_def Let_def)
  have 3: "case download_video_from_url (download_env None []) ''https://example.com/v'' empty_world of
           (None, w1) \<Rightarrow> True
         | (Some (p, t), w1) \<Rightarrow> p = [] \<or> \<not> path_exists w1 p"
    by (simp add: d)
  have e: "\<not> path_exists empty_world download_dir" "trace empty_world = []" "fs empty_world = []"
    "ydl_files (download_env None []) ''https://example.com/v'' = []"
    by (simp_all add: empty_world_def path_exists_def download_env_def)
  from download_failure_stops_run [OF 1 2 3] obtain msg where
    t: "trace (snd (main_flow (download_env None []) empty_world)) =
        [MakeDirs download_dir, Print (Attempting ''https://example.com/v''), Print msg, Print DownloadFailed]"
    and f: "fst (main_flow (download_env None []) empty_world) = None"
      "fs (snd (main_flow (download_env None []) empty_world)) = [download_dir]"
    using e by auto
  have "trace (snd (main_flow (download_env None []) empty_world)) =
        [MakeDirs download_dir, Print (Attempting ''https://example.com/v''), Print DownloadError, Print DownloadFailed]"
    using 1 d by (simp add: main_flow_def Let_def py_print_def emit_def)
  with 1 2 d f show ?thesis by simp
qed




text \<open>
  C10.  The claim is that a probed duration of zero or less gives a clip count of zero.
  For the probe output \<open>-3.0\<close> and the default clip length 3 the count the code
  computes and prints is \<open>-1\<close>, not zero.
\<close>

theorem negative_duration_negative_count:
  "py_float (str_strip (run_stdout (probe_env ''-3.0'') (ffprobe_command ''v.mp4''))) = Inr (Finite (- 3))
   \<and> num_clips (Finite (- 3)) 3 = Inr (- 1)
   \<and> last (trace (snd (video_to_gifs (probe_env ''-3.0'') ''v.mp4'' ''out'' 3 15 empty_world)))
        = Print (CreatingClips (- 1) 3)"
proof -
  have h1: "py_float (str_strip (run_stdout (probe_env ''-3.0'') (ffprobe_command ''v.mp4''))) = Inr (Finite (- 3))"
    by code_simp
  have n: "num_clips (Finite (- 3)) 3 = Inr (- 1)"
    by code_simp
  show ?thesis
    using video_to_gifs_parsed [OF h1, of "''out''" 3 15 empty_world] h1 n
    by (simp add: py_range_def)
qed

text \<open>
  C10, amended.  If the probe output parses to a finite duration \<open>D \<le> 0\<close> and the clip
  length is positive, the transcoder is not invoked and the output directory exists
  when the segmenter is done.  When the clip count is computed it is zero or negative,
  the segmenter returns normally, and its last effect is the message that announces
  the count; when computing it raises, the error leaves the segmenter.  For \<open>D = 0\<close>
  (and a clip length up to \<open>2^53\<close>) the count is exactly zero.
\<close>

theorem nonpositive_duration_no_clips:
  assumes "py_float (str_strip (run_stdout en (ffprobe_command v))) = Inr (Finite D)"
    and "D \<le> 0" and "0 < l"
  shows "transcoder_calls (snd (video_to_gifs en v d l f w)) = transcoder_calls w
       \<and> path_exists (snd (video_to_gifs en v d l f w)) d
       \<and> (case num_clips (Finite D) l of
             Inl err \<Rightarrow> fst (video_to_gifs en v d l f w) = Some err
           | Inr n \<Rightarrow> n \<le> 0 \<and> fst (video_to_gifs en v d l f w) = None
                      \<and> last (trace (snd (video_to_gifs en v d l f w))) = Print (CreatingClips n l))
       \<and> (D = 0 \<and> l \<le> 2 ^ 53 \<longrightarrow> num_clips (Finite D) l = Inr 0)"
proof (cases "num_clips (Finite D) l")
  case (Inl err)
  then have "video_to_gifs en v d l f w = (Some err, py_print (VideoLength (Finite D)) (probed en v d w))"
    using video_to_gifs_parsed [OF assms(1)] by simp
  then show ?thesis
    using Inl transcoder_calls_probed [of en v d w] path_exists_probed [of en v d w]
      num_clips_zero [OF assms(3)]
    by (auto simp: transcoder_calls_def path_exists_def)
next
  case (Inr n)
  then have n: "n \<le> 0"
    using num_clips_nonpositive [OF assms(2,3)] by simp
  have "video_to_gifs en v d l f w =
      (None, py_print (CreatingClips n l) (py_print (VideoLength (Finite D)) (probed en v d w)))"
    using video_to_gifs_parsed [OF assms(1)] Inr by (simp add: py_range_nonpositive [OF n])
  then show ?thesis
    using Inr n transcoder_calls_probed [of en v d w] path_exists_probed [of en v d w]
      num_clips_zero [OF assms(3)]
    by (auto simp: transcoder_calls_def path_exists_def)
qed

theorem nonpositive_duration_no_clips_witness:
  "py_float (str_strip (run_stdout (probe_env ''0.0'') (ffprobe_command ''v.mp4''))) = Inr (Finite 0)
   \<and> (0::rat) \<le> 0 \<and> (0::int) < 3
   \<and> num_clips (Finite 0) 3 = Inr 0
   \<and> transcoder_calls (snd (video_to_gifs (probe_env ''0.0'') ''v.mp4'' ''out'' 3 15 empty_world)) = []
   \<and> path_exists (snd (video_to_gifs (probe_env ''0.0'') ''v.mp4'' ''out'' 3 15 empty_world)) ''out''
   \<and> fst (video_to_gifs (probe_env ''0.0'') ''v.mp4'' ''out'' 3 15 empty_world) = None
   \<and> last (trace (snd (video_to_gifs (probe_env ''0.0'') ''v.mp4'' ''out'' 3 15 empty_world)))
        = Print (CreatingClips 0 3)"
proof -
  have h1: "py_float (str_strip (run_stdout (probe_env ''0.0'') (ffprobe_command ''v.mp4''))) = Inr (Finite 0)"
    by code_simp
  have h2: "(0::rat) \<le> 0" and h3: "(0::int) < 3"
    by simp_all
  have z: "num_clips (Finite 0) 3 = Inr 0"
    by (rule num_clips_zero) simp_all
  have t: "transcoder_calls empty_world = []"
    by (simp add: transcoder_calls_def empty_world_def)
  show ?thesis
    using nonpositive_duration_no_clips [OF h1 h2 h3, of "''out''" 15 empty_world] h1 z t
    by simp
qed

end
